theory Spec2Isabelle
  imports Main "HOL-Library.Sublist"
begin

section \<open>JavaScript values and strings\<close>

text \<open>
  The filter conditions of the client are a \<^verbatim>\<open>Record<string, unknown>\<close>: the query builder
  inspects the shape of every value at run time. A value is therefore a tagged union of
  the shapes the run time tells apart. An object is the list of its own enumerable
  properties in the order \<^verbatim>\<open>Object.entries\<close> yields them. Numbers are the integers
  (page numbers, years, executive-order numbers); strings are sequences of bytes, a
  character beyond ASCII standing as its UTF-8 bytes.
\<close>

datatype jsval =
    JUndefined
  | JNull
  | JBool bool
  | JNum int
  | JStr string
  | JArr "jsval list"
  | JObj "(string \<times> jsval) list"

text \<open>Decimal notation, as \<^verbatim>\<open>String(n)\<close> writes an integer.\<close>

definition digit_char :: "nat \<Rightarrow> char" where
  "digit_char d = char_of (of_char (CHR ''0'') + d)"

fun show_nat :: "nat \<Rightarrow> string" where
  "show_nat n = (if n < 10 then [digit_char n] else show_nat (n div 10) @ [digit_char (n mod 10)])"

declare show_nat.simps [simp del]

definition show_int :: "int \<Rightarrow> string" where
  "show_int i = (if i < 0 then CHR ''-'' # show_nat (nat (- i)) else show_nat (nat i))"

text \<open>\<^verbatim>\<open>Array.prototype.join\<close>: the elements separated by \<open>sep\<close>.\<close>

fun join :: "string \<Rightarrow> string list \<Rightarrow> string" where
  "join sep [] = []"
| "join sep [x] = x"
| "join sep (x # y # ys) = x @ sep @ join sep (y # ys)"

text \<open>
  \<^verbatim>\<open>String(value)\<close>. An array is the comma-joined strings of its elements, where
  \<^verbatim>\<open>undefined\<close> and \<^verbatim>\<open>null\<close> elements are empty; a plain object is
  \<^verbatim>\<open>[object Object]\<close>.
\<close>

fun js_String :: "jsval \<Rightarrow> string" where
  "js_String JUndefined = ''undefined''"
| "js_String JNull = ''null''"
| "js_String (JBool b) = (if b then ''true'' else ''false'')"
| "js_String (JNum n) = show_int n"
| "js_String (JStr s) = s"
| "js_String (JArr xs) =
     join '','' (map (\<lambda>x. if x = JUndefined \<or> x = JNull then [] else js_String x) xs)"
| "js_String (JObj kvs) = ''[object Object]''"

subsection \<open>encodeURIComponent\<close>

text \<open>
  Every byte is escaped as \<^verbatim>\<open>%XX\<close> (upper-case hexadecimal) except the unreserved
  marks: letters, digits and \<^verbatim>\<open>- _ . ! ~ * ' ( )\<close>.
\<close>

definition uri_unreserved :: "char \<Rightarrow> bool" where
  "uri_unreserved c \<longleftrightarrow>
     c \<in> set (''ABCDEFGHIJKLMNOPQRSTUVWXYZabcdefghijklmnopqrstuvwxyz0123456789-_.!~*()''
              @ [CHR 0x27])"

definition hex_digit :: "nat \<Rightarrow> char" where
  "hex_digit d = ''0123456789ABCDEF'' ! d"

definition percent_escape :: "char \<Rightarrow> string" where
  "percent_escape c =
     [CHR ''%'', hex_digit (of_char c div 16), hex_digit (of_char c mod 16)]"

definition encode_char :: "char \<Rightarrow> string" where
  "encode_char c = (if uri_unreserved c then [c] else percent_escape c)"

definition encodeURIComponent :: "string \<Rightarrow> string" where
  "encodeURIComponent s = concat (map encode_char s)"

section \<open>The query builder\<close>

record query_params =
  conditions :: "(string \<times> jsval) list option"
  fields' :: "string list option"
  per_page :: "int option"
  page :: "int option"
  order :: "string option"
  format :: "string option"

text \<open>
  The field \<open>fields'\<close> is the source's \<^verbatim>\<open>fields\<close> (the record package reserves the
  plain name).
\<close>

text \<open>
  \<^verbatim>\<open>buildQueryString\<close> collects the pairs in the local array \<^verbatim>\<open>parts\<close>; the helpers push
  onto it. Here each helper takes the array and returns it extended.
\<close>

definition addParam :: "string \<Rightarrow> jsval \<Rightarrow> string list \<Rightarrow> string list" where
  "addParam key v parts =
     (if v \<noteq> JUndefined \<and> v \<noteq> JNull
      then parts @ [encodeURIComponent key @ ''='' @ encodeURIComponent (js_String v)]
      else parts)"

text \<open>The body of the loop of \<^verbatim>\<open>addConditions\<close>, for one entry of the conditions.\<close>

fun addCondition :: "string \<Rightarrow> string list \<Rightarrow> string \<times> jsval \<Rightarrow> string list" where
  "addCondition pfx parts (key, JObj sub) =
     foldl (\<lambda>ps (subKey, subValue).
              addParam (pfx @ ''['' @ key @ '']['' @ subKey @ '']'') subValue ps)
       parts sub"
| "addCondition pfx parts (key, JArr items) =
     foldl (\<lambda>ps item. addParam (pfx @ ''['' @ key @ ''][]'') item ps) parts items"
| "addCondition pfx parts (key, v) = addParam (pfx @ ''['' @ key @ '']'') v parts"

definition addConditions :: "(string \<times> jsval) list \<Rightarrow> string \<Rightarrow> string list \<Rightarrow> string list" where
  "addConditions conds pfx parts = foldl (addCondition pfx) parts conds"

text \<open>
  The array \<^verbatim>\<open>parts\<close> when \<^verbatim>\<open>buildQueryString\<close> reaches its last line. A condition
  in JavaScript is true of a number other than 0 and of a string other than the empty
  one; an object, also an empty one, is true.
\<close>

definition buildParts :: "query_params \<Rightarrow> string list" where
  "buildParts params =
     (let parts = [];
          parts = (case conditions params of
                     Some conds \<Rightarrow> addConditions conds ''conditions'' parts
                   | None \<Rightarrow> parts);
          parts = (case fields' params of
                     Some fs \<Rightarrow>
                       (if length fs > 0
                        then foldl (\<lambda>ps field. addParam ''fields[]'' (JStr field) ps) parts fs
                        else parts)
                   | None \<Rightarrow> parts);
          parts = (case per_page params of
                     Some n \<Rightarrow> (if n \<noteq> 0 then addParam ''per_page'' (JNum n) parts else parts)
                   | None \<Rightarrow> parts);
          parts = (case page params of
                     Some n \<Rightarrow> (if n \<noteq> 0 then addParam ''page'' (JNum n) parts else parts)
                   | None \<Rightarrow> parts);
          parts = (case order params of
                     Some s \<Rightarrow> (if s \<noteq> [] then addParam ''order'' (JStr s) parts else parts)
                   | None \<Rightarrow> parts);
          parts = (case format params of
                     Some s \<Rightarrow> (if s \<noteq> [] then addParam ''format'' (JStr s) parts else parts)
                   | None \<Rightarrow> parts)
      in parts)"

definition buildQueryString :: "query_params \<Rightarrow> string" where
  "buildQueryString params = join ''&'' (buildParts params)"

section \<open>Requests to the remote API\<close>

text \<open>
  A call either resolves to a value or rejects with an error (\<open>Inl\<close>). \<open>Error msg\<close> is
  \<^verbatim>\<open>new Error(msg)\<close> thrown by the client itself; the other two are rejections of
  \<^verbatim>\<open>fetch\<close> and of reading the body.
\<close>

datatype error = FetchRejected | BodyRejected | Error string

text \<open>
  The response of \<^verbatim>\<open>fetch\<close>. \<open>body\<close> is what \<^verbatim>\<open>response.json()\<close> (or
  \<^verbatim>\<open>response.text()\<close>) resolves to, at the type the caller casts it to.
\<close>

record 'b response =
  ok :: bool
  status :: int
  statusText :: string
  body :: "error + 'b"

text \<open>
  The network is a parameter: \<^verbatim>\<open>fetch\<close> maps a URL and the state of the world to its
  outcome and the next state, so that a backend may answer every call differently.
\<close>

type_synonym ('b, 'w) fetch = "string \<Rightarrow> 'w \<Rightarrow> (error + 'b response) \<times> 'w"

definition BASE_URL :: string where
  "BASE_URL = ''https://www.federalregister.gov/api/v1''"

definition PRESIDENTIAL :: string where
  "PRESIDENTIAL = ''PRESDOCU''"

definition EXECUTIVE_ORDER :: string where
  "EXECUTIVE_ORDER = ''executive_order''"

text \<open>The local \<^verbatim>\<open>url\<close> of \<^verbatim>\<open>makeRequest\<close>.\<close>

definition requestUrl :: "string \<Rightarrow> query_params \<Rightarrow> string" where
  "requestUrl endpoint params =
     (let queryString = buildQueryString params
      in if queryString \<noteq> [] then BASE_URL @ endpoint @ ''?'' @ queryString
         else BASE_URL @ endpoint)"

definition makeRequest :: "('b, 'w) fetch \<Rightarrow> string \<Rightarrow> query_params \<Rightarrow> 'w \<Rightarrow> (error + 'b) \<times> 'w" where
  "makeRequest fetch endpoint params w =
     (case fetch (requestUrl endpoint params) w of
        (Inl e, w') \<Rightarrow> (Inl e, w')
      | (Inr response, w') \<Rightarrow>
          if \<not> ok response
          then (Inl (Error (''Federal Register API error: '' @ show_int (status response)
                             @ '' '' @ statusText response)), w')
          else (body response, w'))"

subsection \<open>Documents\<close>

record agency =
  agency_id :: int
  agency_name :: string
  agency_slug :: string
  agency_url :: "string option"
  agency_description :: "string option"
  agency_short_name :: "string option"
  agency_parent_id :: "int option"
  agency_recent_articles_url :: "string option"

record president_info =
  president_name :: string
  president_identifier :: string

record federal_register_document =
  document_number :: string
  title :: string
  abstract :: "string option"
  html_url :: string
  pdf_url :: "string option"
  json_url :: "string option"
  publication_date :: string
  document_type :: "string option"
  subtype :: "string option"
  agencies :: "agency list option"
  raw_text_url :: "string option"
  body_html_url :: "string option"
  full_text_xml_url :: "string option"

record executive_order = federal_register_document +
  executive_order_number :: int
  executive_order_notes :: "string option"
  signing_date :: string
  president :: president_info
  citation :: "string option"
  start_page :: "int option"
  end_page :: "int option"

text \<open>
  \<^verbatim>\<open>ExecutiveOrderFullText\<close>; its fields carry the prefix \<open>ft_\<close> where the name is also a
  field of a document. \<open>full_text = None\<close> is \<^verbatim>\<open>full_text: null\<close>.
\<close>

record executive_order_full_text =
  ft_executive_order_number :: int
  ft_document_number :: "string option"
  ft_title :: string
  ft_signing_date :: string
  ft_president :: president_info
  ft_abstract :: "string option"
  full_text :: "string option"
  ft_error :: "string option"
  ft_html_url :: string
  ft_pdf_url :: "string option"

text \<open>
  \<^verbatim>\<open>SearchResult<T>\<close>. The client guards against a missing \<^verbatim>\<open>results\<close>, and a comparison
  with a missing \<^verbatim>\<open>total_pages\<close> is false in JavaScript; both are optional here.
\<close>

record 'a search_result =
  count :: int
  total_pages :: "int option"
  results :: "'a list option"

definition js_ge :: "int \<Rightarrow> int option \<Rightarrow> bool" where
  "js_ge a b = (case b of Some n \<Rightarrow> a \<ge> n | None \<Rightarrow> False)"

definition js_lt :: "int \<Rightarrow> int option \<Rightarrow> bool" where
  "js_lt a b = (case b of Some n \<Rightarrow> a < n | None \<Rightarrow> False)"

text \<open>\<^verbatim>\<open>x || d\<close> on an optional number, and the truth of an optional string.\<close>

definition num_or :: "int option \<Rightarrow> int \<Rightarrow> int" where
  "num_or x d = (case x of Some n \<Rightarrow> (if n \<noteq> 0 then n else d) | None \<Rightarrow> d)"

definition truthy_str :: "string option \<Rightarrow> bool" where
  "truthy_str x = (case x of Some s \<Rightarrow> s \<noteq> [] | None \<Rightarrow> False)"

text \<open>\<^verbatim>\<open>SearchDocumentsOptions\<close> is passed to \<^verbatim>\<open>makeRequest\<close> as its \<^verbatim>\<open>QueryParams\<close>.\<close>

type_synonym search_documents_options = query_params

definition getDocument ::
  "(executive_order, 'w) fetch \<Rightarrow> string \<Rightarrow> string list option \<Rightarrow> 'w \<Rightarrow> (error + executive_order) \<times> 'w" where
  "getDocument fetch documentNumber flds w =
     (let params = \<lparr>conditions = None, fields' = None, per_page = None, page = None,
                     order = None, format = None\<rparr>;
          params = (case flds of
                      Some fs \<Rightarrow> (if length fs > 0 then params\<lparr>fields' := Some fs\<rparr> else params)
                    | None \<Rightarrow> params)
      in makeRequest fetch (''/documents/'' @ documentNumber @ ''.json'') params w)"

definition searchDocuments ::
  "('a search_result, 'w) fetch \<Rightarrow> search_documents_options \<Rightarrow> 'w \<Rightarrow> (error + 'a search_result) \<times> 'w" where
  "searchDocuments fetch options w = makeRequest fetch ''/documents.json'' options w"

subsection \<open>Executive orders\<close>

text \<open>\<^verbatim>\<open>SearchExecutiveOrdersOptions\<close>, its fields prefixed with \<open>o_\<close>.\<close>

record search_executive_orders_options =
  o_president :: "string option"
  o_year :: "int option"
  o_term :: "string option"
  o_signingDateGte :: "string option"
  o_signingDateLte :: "string option"
  o_fields :: "string list option"
  o_per_page :: "int option"
  o_page :: "int option"

definition searchDefaultFields :: "string list" where
  "searchDefaultFields =
     [''document_number'', ''executive_order_number'', ''title'', ''signing_date'',
      ''publication_date'', ''president'', ''html_url'', ''pdf_url'', ''json_url'']"

text \<open>The argument \<^verbatim>\<open>searchExecutiveOrders\<close> builds for \<^verbatim>\<open>searchDocuments\<close>.\<close>

definition searchExecutiveOrdersParams :: "search_executive_orders_options \<Rightarrow> query_params" where
  "searchExecutiveOrdersParams options =
     (let conds = [(''type'', JStr PRESIDENTIAL),
                   (''presidential_document_type'', JStr EXECUTIVE_ORDER),
                   (''correction'', JNum 0)];
          conds = (case o_president options of
                     Some p \<Rightarrow> (if p \<noteq> [] then conds @ [(''president'', JStr p)] else conds)
                   | None \<Rightarrow> conds);
          conds = (case o_year options of
                     Some y \<Rightarrow>
                       (if y \<noteq> 0 then conds @ [(''publication_date'', JObj [(''year'', JNum y)])]
                        else conds)
                   | None \<Rightarrow> conds);
          conds = (case o_term options of
                     Some t \<Rightarrow> (if t \<noteq> [] then conds @ [(''term'', JStr t)] else conds)
                   | None \<Rightarrow> conds);
          conds = (if truthy_str (o_signingDateGte options) \<or> truthy_str (o_signingDateLte options)
                   then (let signing = [];
                             signing = (case o_signingDateGte options of
                                          Some d \<Rightarrow> (if d \<noteq> [] then signing @ [(''gte'', JStr d)]
                                                     else signing)
                                        | None \<Rightarrow> signing);
                             signing = (case o_signingDateLte options of
                                          Some d \<Rightarrow> (if d \<noteq> [] then signing @ [(''lte'', JStr d)]
                                                     else signing)
                                        | None \<Rightarrow> signing)
                         in conds @ [(''signing_date'', JObj signing)])
                   else conds)
      in \<lparr>conditions = Some conds,
          fields' = Some (case o_fields options of Some fs \<Rightarrow> fs | None \<Rightarrow> searchDefaultFields),
          per_page = Some (num_or (o_per_page options) 100),
          page = Some (num_or (o_page options) 1),
          order = Some ''executive_order_number'',
          format = None\<rparr>)"

definition searchExecutiveOrders ::
  "(executive_order search_result, 'w) fetch \<Rightarrow> search_executive_orders_options \<Rightarrow> 'w
     \<Rightarrow> (error + executive_order search_result) \<times> 'w" where
  "searchExecutiveOrders fetch options w =
     searchDocuments fetch (searchExecutiveOrdersParams options) w"

definition lookupDefaultFields :: "string list" where
  "lookupDefaultFields =
     [''document_number'', ''executive_order_number'', ''executive_order_notes'', ''title'',
      ''abstract'', ''signing_date'', ''publication_date'', ''president'', ''html_url'',
      ''pdf_url'', ''full_text_xml_url'', ''body_html_url'', ''citation'', ''start_page'',
      ''end_page'']"

text \<open>The argument \<^verbatim>\<open>getExecutiveOrderByNumber\<close> passes to \<^verbatim>\<open>searchDocuments\<close>.\<close>

definition lookupParams :: "int \<Rightarrow> string list option \<Rightarrow> query_params" where
  "lookupParams eoNumber flds =
     \<lparr>conditions = Some [(''type'', JStr PRESIDENTIAL),
                         (''presidential_document_type'', JStr EXECUTIVE_ORDER),
                         (''correction'', JNum 0),
                         (''term'', JStr (js_String (JNum eoNumber)))],
      fields' = Some (case flds of Some fs \<Rightarrow> fs | None \<Rightarrow> lookupDefaultFields),
      per_page = Some 100, page = None, order = None, format = None\<rparr>"

definition getExecutiveOrderByNumber ::
  "(executive_order search_result, 'w) fetch \<Rightarrow> int \<Rightarrow> string list option \<Rightarrow> 'w
     \<Rightarrow> (error + executive_order option) \<times> 'w" where
  "getExecutiveOrderByNumber fetch eoNumber flds w =
     (let targetNum = eoNumber
      in case searchDocuments fetch (lookupParams eoNumber flds) w of
           (Inl e, w') \<Rightarrow> (Inl e, w')
         | (Inr allResults, w') \<Rightarrow>
             (let match = (case results allResults of
                             None \<Rightarrow> None
                           | Some rs \<Rightarrow> find (\<lambda>r. executive_order_number r = targetNum) rs)
              in (Inr match, w')))"

text \<open>
  The loop of \<^verbatim>\<open>getExecutiveOrdersByPresident\<close>, from the test of \<^verbatim>\<open>hasMore\<close> on: the
  page number and the accumulated results are its state.
\<close>

function getExecutiveOrdersByPresident_loop ::
  "(executive_order search_result, 'w) fetch \<Rightarrow> string \<Rightarrow> string list option \<Rightarrow> int
     \<Rightarrow> executive_order list \<Rightarrow> 'w \<Rightarrow> (error + executive_order list) \<times> 'w" where
  "getExecutiveOrdersByPresident_loop fetch pres flds pg allResults w =
     (case searchExecutiveOrders fetch
             \<lparr>o_president = Some pres, o_year = None, o_term = None,
              o_signingDateGte = None, o_signingDateLte = None,
              o_fields = flds, o_per_page = Some 1000, o_page = Some pg\<rparr> w of
        (Inl e, w') \<Rightarrow> (Inl e, w')
      | (Inr response, w') \<Rightarrow>
          (case results response of
             None \<Rightarrow> (Inr allResults, w')
           | Some rs \<Rightarrow>
               if length rs > 0
               then (if js_lt pg (total_pages response) \<and> pg < 2
                     then getExecutiveOrdersByPresident_loop fetch pres flds (pg + 1)
                            (allResults @ rs) w'
                     else (Inr (allResults @ rs), w'))
               else (Inr allResults, w')))"
  by pat_completeness auto
termination
  by (relation "measure (\<lambda>(fetch, pres, flds, pg, allResults, w). nat (2 - pg))") auto

declare getExecutiveOrdersByPresident_loop.simps [simp del]

definition getExecutiveOrdersByPresident ::
  "(executive_order search_result, 'w) fetch \<Rightarrow> string \<Rightarrow> string list option \<Rightarrow> 'w
     \<Rightarrow> (error + executive_order list) \<times> 'w" where
  "getExecutiveOrdersByPresident fetch pres flds w =
     getExecutiveOrdersByPresident_loop fetch pres flds 1 [] w"

definition fetchDocumentText :: "(string, 'w) fetch \<Rightarrow> string \<Rightarrow> 'w \<Rightarrow> (error + string) \<times> 'w" where
  "fetchDocumentText fetch rawTextUrl w =
     (case fetch rawTextUrl w of
        (Inl e, w') \<Rightarrow> (Inl e, w')
      | (Inr response, w') \<Rightarrow>
          if \<not> ok response
          then (Inl (Error (''Failed to fetch document text: '' @ show_int (status response))), w')
          else (body response, w'))"

definition fullTextFields :: "string list" where
  "fullTextFields =
     [''document_number'', ''executive_order_number'', ''title'', ''signing_date'',
      ''president'', ''abstract'', ''raw_text_url'', ''html_url'', ''pdf_url'']"

text \<open>
  \<^verbatim>\<open>getExecutiveOrderFullText\<close> reads three kinds of body: the search envelope, the
  document and the raw text. \<^verbatim>\<open>fetch\<close> is passed once for each. A missing
  \<^verbatim>\<open>raw_text_url\<close> and an empty one are both false in the test \<^verbatim>\<open>!fullDoc.raw_text_url\<close>.
\<close>

definition getExecutiveOrderFullText ::
  "(executive_order search_result, 'w) fetch \<Rightarrow> (executive_order, 'w) fetch \<Rightarrow> (string, 'w) fetch
     \<Rightarrow> int \<Rightarrow> 'w \<Rightarrow> (error + executive_order_full_text option) \<times> 'w" where
  "getExecutiveOrderFullText fetchSearch fetchDoc fetchText eoNumber w =
     (case getExecutiveOrderByNumber fetchSearch eoNumber None w of
        (Inl e, w1) \<Rightarrow> (Inl e, w1)
      | (Inr None, w1) \<Rightarrow> (Inr None, w1)
      | (Inr (Some eo), w1) \<Rightarrow>
          (case getDocument fetchDoc (document_number eo) (Some fullTextFields) w1 of
             (Inl e, w2) \<Rightarrow> (Inl e, w2)
           | (Inr fullDoc, w2) \<Rightarrow>
               (let unavailable =
                      (Inr (Some
                        \<lparr>ft_executive_order_number = eoNumber,
                         ft_document_number = None,
                         ft_title = title fullDoc,
                         ft_signing_date = signing_date fullDoc,
                         ft_president = president fullDoc,
                         ft_abstract = abstract fullDoc,
                         full_text = None,
                         ft_error = Some ''Full text not available for this executive order'',
                         ft_html_url = html_url fullDoc,
                         ft_pdf_url = pdf_url fullDoc\<rparr>), w2)
                in case raw_text_url fullDoc of
                     None \<Rightarrow> unavailable
                   | Some rawTextUrl \<Rightarrow>
                       if rawTextUrl = [] then unavailable
                       else
                         (case fetchDocumentText fetchText rawTextUrl w2 of
                            (Inl e, w3) \<Rightarrow> (Inl e, w3)
                          | (Inr fullText, w3) \<Rightarrow>
                              (Inr (Some
                                \<lparr>ft_executive_order_number = eoNumber,
                                 ft_document_number = Some (document_number fullDoc),
                                 ft_title = title fullDoc,
                                 ft_signing_date = signing_date fullDoc,
                                 ft_president = president fullDoc,
                                 ft_abstract = abstract fullDoc,
                                 full_text = Some fullText,
                                 ft_error = None,
                                 ft_html_url = html_url fullDoc,
                                 ft_pdf_url = pdf_url fullDoc\<rparr>), w3)))))"

section \<open>The paginator\<close>

text \<open>
  \<^verbatim>\<open>Array.prototype.slice(0, end)\<close>: a negative \<open>end\<close> counts from the end of the array.
\<close>

definition slice0 :: "int \<Rightarrow> 'a list \<Rightarrow> 'a list" where
  "slice0 e xs = (if e < 0 then take (nat (int (length xs) + e)) xs else take (nat e) xs)"

type_synonym ('a, 'w) search_function =
  "search_documents_options \<Rightarrow> 'w \<Rightarrow> (error + 'a search_result) \<times> 'w"

text \<open>
  The \<^verbatim>\<open>while\<close> loop of \<^verbatim>\<open>getAllResults\<close>. Nothing in its shape bounds the number of
  rounds, so it is defined as a partial function: \<open>None\<close> is a run that never leaves the
  loop. The value is the array \<^verbatim>\<open>allResults\<close> when the loop is left, or the error the
  search function rejected with.
\<close>

partial_function (option) getAllResults_loop ::
  "('a, 'w) search_function \<Rightarrow> search_documents_options \<Rightarrow> int \<Rightarrow> int \<Rightarrow> int \<Rightarrow> 'a list \<Rightarrow> 'w
     \<Rightarrow> ((error + 'a list) \<times> 'w) option" where
  "getAllResults_loop searchFn options perPage maxResults pg allResults w =
     (if int (length allResults) < maxResults
      then (case searchFn (options\<lparr>page := Some pg, per_page := Some perPage\<rparr>) w of
              (Inl e, w') \<Rightarrow> Some (Inl e, w')
            | (Inr response, w') \<Rightarrow>
                (case results response of
                   None \<Rightarrow> Some (Inr allResults, w')
                 | Some rs \<Rightarrow>
                     if length rs = 0 then Some (Inr allResults, w')
                     else if js_ge pg (total_pages response)
                     then Some (Inr (allResults @ rs), w')
                     else getAllResults_loop searchFn options perPage maxResults (pg + 1)
                            (allResults @ rs) w'))
      else Some (Inr allResults, w))"

definition getAllResults ::
  "('a, 'w) search_function \<Rightarrow> search_documents_options \<Rightarrow> int \<Rightarrow> 'w
     \<Rightarrow> ((error + 'a list) \<times> 'w) option" where
  "getAllResults searchFn options maxResults w =
     (let perPage = min (num_or (per_page options) 100) 1000
      in case getAllResults_loop searchFn options perPage maxResults 1 [] w of
           None \<Rightarrow> None
         | Some (Inl e, w') \<Rightarrow> Some (Inl e, w')
         | Some (Inr allResults, w') \<Rightarrow> Some (Inr (slice0 maxResults allResults), w'))"

section \<open>Dates\<close>

text \<open>
  A \<^verbatim>\<open>Date\<close> is its time value: milliseconds since 1970-01-01T00:00:00Z. The operations
  on it are those of the language definition (ECMAScript, section "Date Objects"), under
  their names there; months count from 0. Time values stay within the range of a
  \<^verbatim>\<open>Date\<close>, so that \<^verbatim>\<open>TimeClip\<close> is the identity.
\<close>

definition msPerDay :: int where
  "msPerDay = 86400000"

definition Day :: "int \<Rightarrow> int" where
  "Day t = t div msPerDay"

definition TimeWithinDay :: "int \<Rightarrow> int" where
  "TimeWithinDay t = t mod msPerDay"

definition DaysInYear :: "int \<Rightarrow> int" where
  "DaysInYear y =
     (if y mod 4 \<noteq> 0 then 365 else if y mod 100 \<noteq> 0 then 366
      else if y mod 400 \<noteq> 0 then 365 else 366)"

definition DayFromYear :: "int \<Rightarrow> int" where
  "DayFromYear y =
     365 * (y - 1970) + (y - 1969) div 4 - (y - 1901) div 100 + (y - 1601) div 400"

text \<open>
  The year of a time value is the largest \<open>y\<close> whose first day is not after it. An
  average year has 146097 / 400 days, which gives the year up to one; the first days of
  the neighbouring years decide.
\<close>

definition YearFromTime :: "int \<Rightarrow> int" where
  "YearFromTime t =
     (let y = 1970 + (400 * Day t) div 146097
      in if DayFromYear (y + 1) \<le> Day t then y + 1
         else if DayFromYear y \<le> Day t then y
         else y - 1)"

definition InLeapYear :: "int \<Rightarrow> int" where
  "InLeapYear t = (if DaysInYear (YearFromTime t) = 366 then 1 else 0)"

definition DayWithinYear :: "int \<Rightarrow> int" where
  "DayWithinYear t = Day t - DayFromYear (YearFromTime t)"

definition MonthFromTime :: "int \<Rightarrow> int" where
  "MonthFromTime t =
     (let d = DayWithinYear t; leap = InLeapYear t
      in if d < 31 then 0
         else if d < 59 + leap then 1
         else if d < 90 + leap then 2
         else if d < 120 + leap then 3
         else if d < 151 + leap then 4
         else if d < 181 + leap then 5
         else if d < 212 + leap then 6
         else if d < 243 + leap then 7
         else if d < 273 + leap then 8
         else if d < 304 + leap then 9
         else if d < 334 + leap then 10
         else 11)"

text \<open>The days of a year before its month \<open>m\<close>; \<open>leap\<close> is 1 in a leap year.\<close>

definition DaysBeforeMonth :: "int \<Rightarrow> int \<Rightarrow> int" where
  "DaysBeforeMonth m leap =
     (if m = 0 then 0
      else if m = 1 then 31
      else if m = 2 then 59 + leap
      else if m = 3 then 90 + leap
      else if m = 4 then 120 + leap
      else if m = 5 then 151 + leap
      else if m = 6 then 181 + leap
      else if m = 7 then 212 + leap
      else if m = 8 then 243 + leap
      else if m = 9 then 273 + leap
      else if m = 10 then 304 + leap
      else 334 + leap)"

definition DateFromTime :: "int \<Rightarrow> int" where
  "DateFromTime t = DayWithinYear t - DaysBeforeMonth (MonthFromTime t) (InLeapYear t) + 1"

text \<open>
  \<^verbatim>\<open>MakeDay\<close>: the day number of the first of month \<open>mn\<close> of year \<open>ym\<close>, moved by
  \<open>date - 1\<close> days.
\<close>

definition MakeDay :: "int \<Rightarrow> int \<Rightarrow> int \<Rightarrow> int" where
  "MakeDay year month date =
     (let ym = year + month div 12; mn = month mod 12
      in DayFromYear ym + DaysBeforeMonth mn (if DaysInYear ym = 366 then 1 else 0) + date - 1)"

definition MakeDate :: "int \<Rightarrow> int \<Rightarrow> int" where
  "MakeDate day time = day * msPerDay + time"

text \<open>
  The clock and the time zone of the process: the instant of the call, and the offset of
  local time from UTC in milliseconds, \<open>LocalTZA t True\<close> at the UTC instant \<open>t\<close> and
  \<open>LocalTZA t False\<close> at the local time \<open>t\<close>.
\<close>

record clock =
  now :: int
  LocalTZA :: "int \<Rightarrow> bool \<Rightarrow> int"

definition LocalTime :: "clock \<Rightarrow> int \<Rightarrow> int" where
  "LocalTime clk t = t + LocalTZA clk t True"

definition UTC :: "clock \<Rightarrow> int \<Rightarrow> int" where
  "UTC clk t = t - LocalTZA clk t False"

text \<open>\<^verbatim>\<open>Date.prototype.getDate\<close> and \<^verbatim>\<open>setDate\<close> work in local time.\<close>

definition getDate :: "clock \<Rightarrow> int \<Rightarrow> int" where
  "getDate clk tv = DateFromTime (LocalTime clk tv)"

definition setDate :: "clock \<Rightarrow> int \<Rightarrow> int \<Rightarrow> int" where
  "setDate clk tv dt =
     (let t = LocalTime clk tv;
          newDate = MakeDate (MakeDay (YearFromTime t) (MonthFromTime t) dt) (TimeWithinDay t)
      in UTC clk newDate)"

text \<open>
  \<^verbatim>\<open>Date.prototype.toISOString\<close> works in UTC. The year has four digits from 0 to 9999 and
  a sign and six digits otherwise.
\<close>

definition pad_left :: "nat \<Rightarrow> int \<Rightarrow> string" where
  "pad_left width n = replicate (width - length (show_nat (nat n))) CHR ''0'' @ show_nat (nat n)"

definition iso_date :: "int \<Rightarrow> string" where
  "iso_date tv =
     (let y = YearFromTime tv
      in (if 0 \<le> y \<and> y \<le> 9999 then pad_left 4 y
          else (if y < 0 then ''-'' else ''+'') @ pad_left 6 (abs y))
         @ ''-'' @ pad_left 2 (MonthFromTime tv + 1) @ ''-'' @ pad_left 2 (DateFromTime tv))"

definition toISOString :: "int \<Rightarrow> string" where
  "toISOString tv =
     (let t = TimeWithinDay tv
      in iso_date tv @ ''T'' @ pad_left 2 (t div 3600000) @ '':''
         @ pad_left 2 (t div 60000 mod 60) @ '':'' @ pad_left 2 (t div 1000 mod 60)
         @ ''.'' @ pad_left 3 (t mod 1000) @ ''Z'')"

text \<open>The local \<^verbatim>\<open>dateStr\<close> of \<^verbatim>\<open>getRecentExecutiveOrders\<close>.\<close>

definition recentDateStr :: "clock \<Rightarrow> string" where
  "recentDateStr clk =
     (let thirtyDaysAgo = now clk;
          thirtyDaysAgo = setDate clk thirtyDaysAgo (getDate clk thirtyDaysAgo - 30)
      in takeWhile (\<lambda>c. c \<noteq> CHR ''T'') (toISOString thirtyDaysAgo))"

definition getRecentExecutiveOrders ::
  "(executive_order search_result, 'w) fetch \<Rightarrow> clock \<Rightarrow> string list option \<Rightarrow> 'w
     \<Rightarrow> (error + executive_order search_result) \<times> 'w" where
  "getRecentExecutiveOrders fetch clk flds w =
     searchExecutiveOrders fetch
       \<lparr>o_president = None, o_year = None, o_term = None,
        o_signingDateGte = Some (recentDateStr clk), o_signingDateLte = None,
        o_fields = flds, o_per_page = None, o_page = None\<rparr> w"

section \<open>Observing the calls\<close>

text \<open>
  To count the calls a function makes, the callee is wrapped so that every call leaves an
  entry in a list carried beside the state of the world.
\<close>

definition spying ::
  "('q \<Rightarrow> 'r \<Rightarrow> 'e) \<Rightarrow> ('q \<Rightarrow> 'w \<Rightarrow> 'r \<times> 'w) \<Rightarrow> 'q \<Rightarrow> 'w \<times> 'e list \<Rightarrow> 'r \<times> ('w \<times> 'e list)" where
  "spying entry f q = (\<lambda>(w, seen). case f q w of (r, w') \<Rightarrow> (r, (w', seen @ [entry q r])))"

section \<open>Definitions for stating the properties\<close>

subsection \<open>Pairs of a query string\<close>

text \<open>
  The pair \<open>key=value\<close> of a query string, both sides percent-encoded.
\<close>

definition spec_pair :: "string \<Rightarrow> jsval \<Rightarrow> string" where
  "spec_pair key v = encodeURIComponent key @ ''='' @ encodeURIComponent (js_String v)"

text \<open>
  A value that is neither \<^verbatim>\<open>undefined\<close> nor \<^verbatim>\<open>null\<close>.
\<close>

definition present :: "jsval \<Rightarrow> bool" where
  "present v \<longleftrightarrow> v \<noteq> JUndefined \<and> v \<noteq> JNull"

text \<open>
  The pairs the specification asks for a nested filter \<open>k: {sub: v, \<dots>}\<close>: one
  \<open>conditions[k][sub]=v\<close> for each sub-key whose value is present, in the mapping's order.
\<close>

definition nested_pairs :: "string \<Rightarrow> (string \<times> jsval) list \<Rightarrow> string list" where
  "nested_pairs k sub =
     map (\<lambda>(s, v). spec_pair (''conditions['' @ k @ '']['' @ s @ '']'') v)
       (filter (\<lambda>(s, v). present v) sub)"

text \<open>
  The pairs the specification asks for a sequence-valued filter \<open>k: [v1, v2, \<dots>]\<close>: one
  \<open>conditions[k][]=vi\<close> for each element, in order.
\<close>

definition sequence_pairs :: "string \<Rightarrow> jsval list \<Rightarrow> string list" where
  "sequence_pairs k items = map (spec_pair (''conditions['' @ k @ ''][]'')) items"

text \<open>
  The pairs each part of the parameters contributes, for the lemma that takes
  \<open>buildParts\<close> apart.
\<close>

definition condParts :: "(string \<times> jsval) list option \<Rightarrow> string list" where
  "condParts c = (case c of Some conds \<Rightarrow> addConditions conds ''conditions'' [] | None \<Rightarrow> [])"

definition fieldParts :: "string list option \<Rightarrow> string list" where
  "fieldParts f = (case f of Some fs \<Rightarrow> map (spec_pair ''fields[]'' \<circ> JStr) fs | None \<Rightarrow> [])"

definition numPart :: "string \<Rightarrow> int option \<Rightarrow> string list" where
  "numPart key x = (case x of Some n \<Rightarrow> (if n \<noteq> 0 then [spec_pair key (JNum n)] else []) | None \<Rightarrow> [])"

definition strPart :: "string \<Rightarrow> string option \<Rightarrow> string list" where
  "strPart key x = (case x of Some s \<Rightarrow> (if s \<noteq> [] then [spec_pair key (JStr s)] else []) | None \<Rightarrow> [])"

text \<open>
  \<^verbatim>\<open>String.prototype.split\<close> at a one-character separator.
\<close>

fun split_on :: "char \<Rightarrow> string \<Rightarrow> string list" where
  "split_on c [] = [[]]"
| "split_on c (x # xs) =
     (case split_on c xs of
        [] \<Rightarrow> [[x]]
      | seg # segs \<Rightarrow> if x = c then [] # seg # segs else (x # seg) # segs)"

text \<open>
  A non-empty query string has an empty segment when two separators are adjacent or one
  stands first or last.
\<close>

definition has_empty_segment :: "string \<Rightarrow> bool" where
  "has_empty_segment s \<longleftrightarrow> s \<noteq> [] \<and> [] \<in> set (split_on CHR ''&'' s)"

text \<open>
  The pairs of a query string: its segments; the empty string has none.
\<close>

definition query_pairs :: "string \<Rightarrow> string list" where
  "query_pairs s = (if s = [] then [] else split_on CHR ''&'' s)"

text \<open>
  Parameters that hold conditions and nothing else.
\<close>

definition only_conditions :: "(string \<times> jsval) list \<Rightarrow> query_params" where
  "only_conditions conds =
     \<lparr>conditions = Some conds, fields' = None, per_page = None, page = None,
      order = None, format = None\<rparr>"

text \<open>
  A segment that is not empty and holds no separator.
\<close>

definition well_formed_pair :: "string \<Rightarrow> bool" where
  "well_formed_pair x \<longleftrightarrow> x \<noteq> [] \<and> CHR ''&'' \<notin> set x"

text \<open>
  The empty parameter object \<^verbatim>\<open>{}\<close>.
\<close>

definition no_params :: query_params where
  "no_params = \<lparr>conditions = None, fields' = None, per_page = None, page = None,
                 order = None, format = None\<rparr>"

subsection \<open>Pages and example search functions\<close>

text \<open>
  The results one observed call contributed, and the page numbers \<open>pg, pg + 1, \<dots>\<close> of
  \<open>n\<close> successive calls.
\<close>

definition reply_results :: "'q \<times> (error + 'a search_result) \<Rightarrow> 'a list" where
  "reply_results c =
     (case snd c of
        Inl e \<Rightarrow> []
      | Inr response \<Rightarrow> (case results response of None \<Rightarrow> [] | Some rs \<Rightarrow> rs))"

definition pages_from :: "int \<Rightarrow> nat \<Rightarrow> int option list" where
  "pages_from pg n = map (\<lambda>i. Some (pg + int i)) [0..<n]"

definition two_per_page :: "(int, unit) search_function" where
  "two_per_page q w =
     (Inr \<lparr>count = 6, total_pages = Some 3,
           results = Some (case page q of
                             Some p \<Rightarrow> (if 1 \<le> p \<and> p \<le> 3 then [2 * p - 1, 2 * p] else [])
                           | None \<Rightarrow> [])\<rparr>, w)"

definition stale_empty :: "(int, nat) search_function" where
  "stale_empty q n = (Inr \<lparr>count = 12, total_pages = Some 5, results = Some []\<rparr>, Suc n)"

subsection \<open>Example backends\<close>

text \<open>An executive order with the given number, and a backend whose search always serves the
  orders numbered 10, 22 and 31.\<close>

definition example_order :: "int \<Rightarrow> executive_order" where
  "example_order n =
     \<lparr>document_number = ''2022-'' @ show_int n, title = ''Order '' @ show_int n, abstract = None,
      html_url = ''https://www.federalregister.gov/d/2022-'' @ show_int n,
      pdf_url = None, json_url = None, publication_date = ''2022-03-14'',
      document_type = Some ''Presidential Document'', subtype = Some ''Executive Order'',
      agencies = None, raw_text_url = None, body_html_url = None, full_text_xml_url = None,
      executive_order_number = n, executive_order_notes = None, signing_date = ''2022-03-09'',
      president = \<lparr>president_name = ''Joseph R. Biden Jr.'', president_identifier = ''joe-biden''\<rparr>,
      citation = None, start_page = None, end_page = None\<rparr>"

definition three_orders :: "(executive_order search_result, unit) fetch" where
  "three_orders url w =
     (Inr \<lparr>ok = True, status = 200, statusText = ''OK'',
           body = Inr \<lparr>count = 3, total_pages = Some 1,
                        results = Some (map example_order [10, 22, 31])\<rparr>\<rparr>, w)"

subsection \<open>Observed requests\<close>

text \<open>
  What \<^verbatim>\<open>makeRequest\<close> resolves to or rejects with, given what \<^verbatim>\<open>fetch\<close> answered.
\<close>

definition request_outcome :: "error + 'b response \<Rightarrow> error + 'b" where
  "request_outcome reply =
     (case reply of
        Inl e \<Rightarrow> Inl e
      | Inr response \<Rightarrow>
          if \<not> ok response
          then Inl (Error (''Federal Register API error: '' @ show_int (status response)
                           @ '' '' @ statusText response))
          else body response)"

text \<open>
  The results one observed request contributed: those of its envelope when the request
  succeeded.
\<close>

definition served_results :: "string \<times> (error + 'a search_result response) \<Rightarrow> 'a list" where
  "served_results c =
     (case request_outcome (snd c) of
        Inl e \<Rightarrow> []
      | Inr envelope \<Rightarrow> (case results envelope of None \<Rightarrow> [] | Some rs \<Rightarrow> rs))"

text \<open>
  The options \<^verbatim>\<open>getExecutiveOrdersByPresident\<close> passes for page \<open>pg\<close>, and the URL requested
  for them.
\<close>

definition presidentPage :: "string \<Rightarrow> string list option \<Rightarrow> int \<Rightarrow> search_executive_orders_options" where
  "presidentPage pres flds pg =
     \<lparr>o_president = Some pres, o_year = None, o_term = None,
      o_signingDateGte = None, o_signingDateLte = None,
      o_fields = flds, o_per_page = Some 1000, o_page = Some pg\<rparr>"

definition presidentPageUrl :: "string \<Rightarrow> string list option \<Rightarrow> int \<Rightarrow> string" where
  "presidentPageUrl pres flds pg =
     requestUrl ''/documents.json'' (searchExecutiveOrdersParams (presidentPage pres flds pg))"

text \<open>
  A backend that claims five pages and serves one more order on every call; its state
  counts the calls.
\<close>

definition endless_pages :: "(executive_order search_result, nat) fetch" where
  "endless_pages url n =
     (Inr \<lparr>ok = True, status = 200, statusText = ''OK'',
           body = Inr \<lparr>count = 5000, total_pages = Some 5,
                        results = Some [example_order (int n)]\<rparr>\<rparr>, Suc n)"

text \<open>
  The entry kept of an observed request when only its URL matters.
\<close>

definition url_of :: "string \<Rightarrow> 'r \<Rightarrow> string" where
  "url_of url reply = url"

text \<open>
  A backend serving order 22 as a document without \<^verbatim>\<open>raw_text_url\<close>, and one whose raw
  text cannot be fetched.
\<close>

definition document_without_text :: "(executive_order, unit) fetch" where
  "document_without_text url w =
     (Inr \<lparr>ok = True, status = 200, statusText = ''OK'', body = Inr (example_order 22)\<rparr>, w)"

definition text_unreachable :: "(string, unit) fetch" where
  "text_unreachable url w = (Inl FetchRejected, w)"

section \<open>Properties of the query builder\<close>

lemma addParam_Nil: "addParam key v parts = parts @ addParam key v []"
  by (simp add: addParam_def)

lemma foldl_addParam:
  "foldl (\<lambda>ps x. addParam (g x) (h x) ps) parts xs =
     parts @ concat (map (\<lambda>x. addParam (g x) (h x) []) xs)"
proof (induction xs arbitrary: parts)
  case Nil
  then show ?case by simp
next
  case (Cons x xs)
  show ?case
    by (simp add: Cons.IH [of "addParam (g x) (h x) parts"]) (subst addParam_Nil, simp)
qed

lemma addCondition_nested:
  "addCondition pfx parts (k, JObj sub) =
     parts @ map (\<lambda>(s, v). spec_pair (pfx @ ''['' @ k @ '']['' @ s @ '']'') v)
               (filter (\<lambda>(s, v). present v) sub)"
proof -
  have "addCondition pfx parts (k, JObj sub) =
      foldl (\<lambda>ps x. addParam (pfx @ ''['' @ k @ '']['' @ fst x @ '']'') (snd x) ps) parts sub"
    by (simp add: split_def)
  also have "\<dots> = parts @ concat (map (\<lambda>x. addParam (pfx @ ''['' @ k @ '']['' @ fst x @ '']'') (snd x) []) sub)"
    by (rule foldl_addParam)
  also have "concat (map (\<lambda>x. addParam (pfx @ ''['' @ k @ '']['' @ fst x @ '']'') (snd x) []) sub) =
      map (\<lambda>(s, v). spec_pair (pfx @ ''['' @ k @ '']['' @ s @ '']'') v)
               (filter (\<lambda>(s, v). present v) sub)"
    by (induction sub) (auto simp: addParam_def spec_pair_def present_def)
  finally show ?thesis .
qed

lemma addCondition_sequence:
  "addCondition pfx parts (k, JArr items) =
     parts @ map (spec_pair (pfx @ ''['' @ k @ ''][]'')) (filter present items)"
proof -
  have "addCondition pfx parts (k, JArr items) =
      parts @ concat (map (\<lambda>x. addParam (pfx @ ''['' @ k @ ''][]'') x []) items)"
    using foldl_addParam [of "\<lambda>x. pfx @ ''['' @ k @ ''][]''" "\<lambda>x. x" parts items] by simp
  also have "concat (map (\<lambda>x. addParam (pfx @ ''['' @ k @ ''][]'') x []) items) =
      map (spec_pair (pfx @ ''['' @ k @ ''][]'')) (filter present items)"
    by (induction items) (auto simp: addParam_def spec_pair_def present_def)
  finally show ?thesis .
qed

lemma addCondition_Nil: "addCondition pfx parts e = parts @ addCondition pfx [] e"
proof (cases e)
  case (Pair k v)
  show ?thesis
  proof (cases v)
    case (JObj sub)
    with Pair show ?thesis by (simp only: addCondition_nested append_Nil)
  next
    case (JArr items)
    with Pair show ?thesis by (simp only: addCondition_sequence append_Nil)
  qed (use Pair in \<open>simp_all add: addParam_Nil [of _ _ parts]\<close>)
qed

lemma addConditions_Nil:
  "addConditions conds pfx parts = parts @ addConditions conds pfx []"
proof (induction conds arbitrary: parts)
  case Nil
  then show ?case by (simp add: addConditions_def)
next
  case (Cons e conds)
  have "addConditions (e # conds) pfx parts = addConditions conds pfx (addCondition pfx parts e)"
    by (simp add: addConditions_def)
  also have "\<dots> = addCondition pfx parts e @ addConditions conds pfx []"
    by (rule Cons.IH)
  also have "\<dots> = parts @ addCondition pfx [] e @ addConditions conds pfx []"
    by (subst addCondition_Nil) simp
  also have "addCondition pfx [] e @ addConditions conds pfx [] = addConditions (e # conds) pfx []"
    using Cons.IH [of "addCondition pfx [] e"] by (simp add: addConditions_def)
  finally show ?case .
qed

lemma addConditions_append:
  "addConditions (xs @ ys) pfx [] = addConditions xs pfx [] @ addConditions ys pfx []"
proof -
  have "addConditions (xs @ ys) pfx [] = addConditions ys pfx (addConditions xs pfx [])"
    by (simp add: addConditions_def)
  then show ?thesis by (simp add: addConditions_Nil [of ys pfx "addConditions xs pfx []"])
qed

lemma addConditions_Cons:
  "addConditions (e # ys) pfx [] = addCondition pfx [] e @ addConditions ys pfx []"
  using addConditions_Nil [of ys pfx "addCondition pfx [] e"] by (simp add: addConditions_def)

lemma step_conditions:
  "(case c of Some conds \<Rightarrow> addConditions conds ''conditions'' parts | None \<Rightarrow> parts) =
     parts @ condParts c"
  by (cases c) (simp_all add: condParts_def addConditions_Nil [of _ _ parts])

lemma step_fields:
  "(case f of Some fs \<Rightarrow>
       (if length fs > 0 then foldl (\<lambda>ps field. addParam ''fields[]'' (JStr field) ps) parts fs
        else parts)
    | None \<Rightarrow> parts) = parts @ fieldParts f"
proof (cases f)
  case None
  then show ?thesis by (simp add: fieldParts_def)
next
  case (Some fs)
  have "concat (map (\<lambda>x. addParam ''fields[]'' (JStr x) []) fs) = map (spec_pair ''fields[]'' \<circ> JStr) fs"
    by (induction fs) (simp_all add: addParam_def spec_pair_def)
  with Some show ?thesis
    using foldl_addParam [of "\<lambda>x. ''fields[]''" JStr parts fs]
    by (cases fs) (simp_all add: fieldParts_def)
qed

lemma step_num:
  "(case x of Some n \<Rightarrow> (if n \<noteq> 0 then addParam key (JNum n) parts else parts) | None \<Rightarrow> parts) =
     parts @ numPart key x"
  by (cases x) (simp_all add: numPart_def addParam_def spec_pair_def)

lemma step_str:
  "(case x of Some s \<Rightarrow> (if s \<noteq> [] then addParam key (JStr s) parts else parts) | None \<Rightarrow> parts) =
     parts @ strPart key x"
  by (cases x) (simp_all add: strPart_def addParam_def spec_pair_def)

lemma buildParts_eq:
  "buildParts params =
     condParts (conditions params) @ fieldParts (fields' params) @
     numPart ''per_page'' (per_page params) @ numPart ''page'' (page params) @
     strPart ''order'' (order params) @ strPart ''format'' (format params)"
  unfolding buildParts_def Let_def step_conditions step_fields step_num step_str
  by simp

lemma split_on_ne: "split_on c s \<noteq> []"
  by (cases s) (simp_all split: list.splits)

lemma split_on_plain: "c \<notin> set p \<Longrightarrow> split_on c p = [p]"
  by (induction p) auto

lemma split_on_sep: "c \<notin> set p \<Longrightarrow> split_on c (p @ c # rest) = p # split_on c rest"
proof (induction p)
  case Nil
  then show ?case by (cases "split_on c rest") (simp_all add: split_on_ne)
next
  case (Cons x p)
  then show ?case by auto
qed

lemma split_on_join:
  "ps \<noteq> [] \<Longrightarrow> \<forall>p\<in>set ps. c \<notin> set p \<Longrightarrow> split_on c (join [c] ps) = ps"
proof (induction "[c]" ps rule: join.induct)
  case 1
  then show ?case by simp
next
  case (2 x)
  then show ?case by (simp add: split_on_plain)
next
  case (3 x y ys)
  then show ?case by (simp add: split_on_sep)
qed

lemma of_char_less: "of_char c < (256 :: nat)"
  by (cases c) simp

lemma hex_digit_mem: "d < 16 \<Longrightarrow> hex_digit d \<in> set ''0123456789ABCDEF''"
  unfolding hex_digit_def by (rule nth_mem) simp

lemma encode_char_no_amp: "CHR ''&'' \<notin> set (encode_char c)"
proof (cases "uri_unreserved c")
  case True
  then show ?thesis by (auto simp: encode_char_def uri_unreserved_def)
next
  case False
  have "(of_char c :: nat) div 16 < 16" "(of_char c :: nat) mod 16 < 16"
    using of_char_less [of c] by (simp_all add: less_mult_imp_div_less)
  then have "hex_digit (of_char c div 16) \<noteq> CHR ''&''" "hex_digit (of_char c mod 16) \<noteq> CHR ''&''"
    using hex_digit_mem by fastforce+
  with False show ?thesis by (auto simp: encode_char_def percent_escape_def)
qed

lemma encodeURIComponent_no_amp: "CHR ''&'' \<notin> set (encodeURIComponent s)"
  by (induction s) (simp_all add: encodeURIComponent_def encode_char_no_amp)

lemma spec_pair_no_amp: "CHR ''&'' \<notin> set (spec_pair k v)"
  by (simp add: spec_pair_def encodeURIComponent_no_amp)

lemma spec_pair_ne: "spec_pair k v \<noteq> []"
  by (simp add: spec_pair_def)

lemma well_formed_spec_pair: "well_formed_pair (spec_pair k v)"
  by (simp add: well_formed_pair_def spec_pair_ne spec_pair_no_amp)

lemma addCondition_scalar:
  assumes "\<And>sub. v \<noteq> JObj sub" and "\<And>items. v \<noteq> JArr items"
  shows "addCondition pfx parts (k, v) =
     parts @ (if present v then [spec_pair (pfx @ ''['' @ k @ '']'') v] else [])"
  using assms by (cases v) (auto simp: addParam_def present_def spec_pair_def)

lemma addCondition_well_formed: "list_all well_formed_pair (addCondition pfx [] e)"
proof (cases e)
  case (Pair k v)
  show ?thesis
  proof (cases v)
    case (JObj sub)
    show ?thesis
      unfolding Pair JObj addCondition_nested
      by (simp add: list_all_iff well_formed_spec_pair split_def)
  next
    case (JArr items)
    show ?thesis
      unfolding Pair JArr addCondition_sequence
      by (simp add: list_all_iff well_formed_spec_pair)
  qed (simp_all add: Pair addCondition_scalar well_formed_spec_pair del: addCondition.simps)
qed

lemma addConditions_well_formed: "list_all well_formed_pair (addConditions conds pfx [])"
proof (induction conds)
  case Nil
  then show ?case by (simp add: addConditions_def)
next
  case (Cons e conds)
  then show ?case by (simp add: addConditions_Cons addCondition_well_formed)
qed

lemma condParts_well_formed: "list_all well_formed_pair (condParts c)"
  by (cases c) (simp_all add: condParts_def addConditions_well_formed)

lemma fieldParts_well_formed: "list_all well_formed_pair (fieldParts f)"
  by (cases f) (simp_all add: fieldParts_def list_all_iff well_formed_spec_pair)

lemma numPart_well_formed: "list_all well_formed_pair (numPart key x)"
  by (cases x) (simp_all add: numPart_def well_formed_spec_pair)

lemma strPart_well_formed: "list_all well_formed_pair (strPart key x)"
  by (cases x) (simp_all add: strPart_def well_formed_spec_pair)

lemma buildParts_well_formed: "list_all well_formed_pair (buildParts params)"
  unfolding buildParts_eq
  by (simp add: condParts_well_formed fieldParts_well_formed numPart_well_formed
      strPart_well_formed)

lemma join_well_formed_ne: "ps \<noteq> [] \<Longrightarrow> list_all well_formed_pair ps \<Longrightarrow> join sep ps \<noteq> []"
  by (induction sep ps rule: join.induct) (simp_all add: well_formed_pair_def)

lemma query_pairs_join:
  assumes "list_all well_formed_pair ps"
  shows "query_pairs (join ''&'' ps) = ps"
proof (cases "ps = []")
  case True
  then show ?thesis by (simp add: query_pairs_def)
next
  case False
  from False assms have "join ''&'' ps \<noteq> []" by (rule join_well_formed_ne)
  moreover have "split_on CHR ''&'' (join [CHR ''&''] ps) = ps"
    using False assms by (intro split_on_join) (auto simp: list_all_iff well_formed_pair_def)
  ultimately show ?thesis by (simp add: query_pairs_def)
qed

lemma query_pairs_buildQueryString: "query_pairs (buildQueryString params) = buildParts params"
  unfolding buildQueryString_def by (rule query_pairs_join) (rule buildParts_well_formed)

lemma no_empty_segment_buildQueryString: "\<not> has_empty_segment (buildQueryString params)"
proof
  assume bad: "has_empty_segment (buildQueryString params)"
  then have "[] \<in> set (query_pairs (buildQueryString params))"
    by (simp add: has_empty_segment_def query_pairs_def)
  then have "[] \<in> set (buildParts params)"
    by (simp only: query_pairs_buildQueryString)
  with buildParts_well_formed [of params] show False
    by (auto simp: list_all_iff well_formed_pair_def)
qed

lemma buildParts_only_conditions: "buildParts (only_conditions conds) = addConditions conds ''conditions'' []"
  by (simp add: buildParts_eq only_conditions_def condParts_def fieldParts_def numPart_def strPart_def)

lemma buildParts_insert:
  "buildParts (params\<lparr>conditions := Some (pre @ e # post)\<rparr>) =
     buildParts (only_conditions pre) @ addCondition ''conditions'' [] e
     @ buildParts (params\<lparr>conditions := Some post\<rparr>)"
  by (simp add: buildParts_eq [of "params\<lparr>conditions := _\<rparr>"] buildParts_only_conditions condParts_def
      addConditions_append addConditions_Cons)

lemma hex_digit_unreserved: "d < 16 \<Longrightarrow> uri_unreserved (hex_digit d)"
  using hex_digit_mem [of d] by (auto simp: uri_unreserved_def)

lemma encode_char_avoids:
  assumes "\<not> uri_unreserved c" and "c \<noteq> CHR ''%''"
  shows "c \<notin> set (encode_char x)"
proof (cases "uri_unreserved x")
  case True
  with assms show ?thesis by (auto simp: encode_char_def)
next
  case False
  have "(of_char x :: nat) div 16 < 16" "(of_char x :: nat) mod 16 < 16"
    using of_char_less [of x] by (simp_all add: less_mult_imp_div_less)
  then have "uri_unreserved (hex_digit (of_char x div 16))" "uri_unreserved (hex_digit (of_char x mod 16))"
    by (simp_all add: hex_digit_unreserved)
  with assms False show ?thesis by (auto simp: encode_char_def percent_escape_def)
qed

lemma encodeURIComponent_avoids:
  "\<not> uri_unreserved c \<Longrightarrow> c \<noteq> CHR ''%'' \<Longrightarrow> c \<notin> set (encodeURIComponent s)"
  by (induction s) (simp_all add: encodeURIComponent_def encode_char_avoids)

lemma encodeURIComponent_no_eq: "CHR ''='' \<notin> set (encodeURIComponent s)"
  by (rule encodeURIComponent_avoids) (simp_all add: uri_unreserved_def)

lemma hex_digit_inj: "a < 16 \<Longrightarrow> b < 16 \<Longrightarrow> hex_digit a = hex_digit b \<Longrightarrow> a = b"
proof -
  have "distinct ''0123456789ABCDEF''" by simp
  moreover assume "a < 16" "b < 16" "hex_digit a = hex_digit b"
  ultimately show "a = b"
    unfolding hex_digit_def by (simp add: nth_eq_iff_index_eq)
qed

lemma percent_escape_inj:
  assumes "percent_escape a = percent_escape b"
  shows "a = b"
proof -
  have bounds: "(of_char a :: nat) div 16 < 16" "(of_char a :: nat) mod 16 < 16"
      "(of_char b :: nat) div 16 < 16" "(of_char b :: nat) mod 16 < 16"
    using of_char_less [of a] of_char_less [of b] by (simp_all add: less_mult_imp_div_less)
  from assms have "hex_digit (of_char a div 16) = hex_digit (of_char b div 16)"
      "hex_digit (of_char a mod 16) = hex_digit (of_char b mod 16)"
    by (simp_all add: percent_escape_def)
  with bounds have "(of_char a :: nat) div 16 = of_char b div 16" "(of_char a :: nat) mod 16 = of_char b mod 16"
    by (blast intro: hex_digit_inj)+
  then have "(of_char a :: nat) = of_char b"
    by (metis div_mult_mod_eq)
  then show ?thesis by simp
qed

lemma encode_char_ne: "encode_char c \<noteq> []"
  by (simp add: encode_char_def percent_escape_def)

lemma encode_char_cancel:
  assumes "encode_char a @ r = encode_char b @ r'"
  shows "a = b \<and> r = r'"
proof -
  have pct: "\<not> uri_unreserved CHR ''%''" by (simp add: uri_unreserved_def)
  consider (uu) "uri_unreserved a" "uri_unreserved b"
    | (un) "uri_unreserved a" "\<not> uri_unreserved b"
    | (nu) "\<not> uri_unreserved a" "uri_unreserved b"
    | (nn) "\<not> uri_unreserved a" "\<not> uri_unreserved b"
    by blast
  then show ?thesis
  proof cases
    case uu
    with assms show ?thesis by (simp add: encode_char_def)
  next
    case un
    with assms have "a = CHR ''%''" by (simp add: encode_char_def percent_escape_def)
    with un pct show ?thesis by simp
  next
    case nu
    with assms have "b = CHR ''%''" by (simp add: encode_char_def percent_escape_def)
    with nu pct show ?thesis by simp
  next
    case nn
    with assms have "percent_escape a = percent_escape b \<and> r = r'"
      by (simp add: encode_char_def percent_escape_def)
    then show ?thesis by (simp add: percent_escape_inj)
  qed
qed

lemma encodeURIComponent_inj: "encodeURIComponent s = encodeURIComponent t \<Longrightarrow> s = t"
proof (induction s arbitrary: t)
  case Nil
  then show ?case by (cases t) (simp_all add: encodeURIComponent_def encode_char_ne)
next
  case (Cons a s)
  show ?case
  proof (cases t)
    case Nil
    with Cons.prems show ?thesis by (simp add: encodeURIComponent_def encode_char_ne)
  next
    case (Cons b t')
    with Cons.prems have "encode_char a @ encodeURIComponent s = encode_char b @ encodeURIComponent t'"
      by (simp add: encodeURIComponent_def)
    then have "a = b" "encodeURIComponent s = encodeURIComponent t'"
      by (auto dest: encode_char_cancel)
    with Cons.IH Cons show ?thesis by simp
  qed
qed

lemma spec_pair_inj:
  assumes "spec_pair k v = spec_pair k' v'"
  shows "k = k' \<and> js_String v = js_String v'"
proof -
  from assms have "encodeURIComponent k @ CHR ''='' # encodeURIComponent (js_String v)
      = encodeURIComponent k' @ CHR ''='' # encodeURIComponent (js_String v')"
    by (simp add: spec_pair_def)
  then have "encodeURIComponent k = encodeURIComponent k'
      \<and> encodeURIComponent (js_String v) = encodeURIComponent (js_String v')"
    by (simp add: append_Cons_eq_iff encodeURIComponent_no_eq)
  then show ?thesis by (simp add: encodeURIComponent_inj)
qed

lemma nested_pairs_distinct:
  assumes "distinct (map fst sub)"
  shows "distinct (nested_pairs k sub)"
proof -
  let ?f = "\<lambda>(s, v). spec_pair (''conditions['' @ k @ '']['' @ s @ '']'') v"
  let ?kept = "filter (\<lambda>(s, v). present v) sub"
  from assms have "distinct sub" by (simp add: distinct_map)
  then have "distinct ?kept" by simp
  moreover have "inj_on ?f (set ?kept)"
  proof (rule inj_onI)
    fix x y
    assume x: "x \<in> set ?kept" and y: "y \<in> set ?kept" and eq: "?f x = ?f y"
    obtain s v where xs: "x = (s, v)" by (cases x)
    obtain s' v' where ys: "y = (s', v')" by (cases y)
    from eq xs ys have "s = s'" by (auto dest: spec_pair_inj)
    moreover from x y xs ys have "(s, v) \<in> set sub" "(s', v') \<in> set sub" by auto
    ultimately have "v = v'" using assms by (auto dest: eq_key_imp_eq_value)
    with \<open>s = s'\<close> xs ys show "x = y" by simp
  qed
  ultimately show ?thesis by (simp add: nested_pairs_def distinct_map)
qed

lemma buildQueryString_pairs:
  "buildQueryString params = join ''&'' (query_pairs (buildQueryString params))"
  by (simp only: query_pairs_buildQueryString) (simp add: buildQueryString_def)

text \<open>
  Claim C5. When a key \<open>k\<close> of the conditions maps to a nested mapping \<open>sub\<close>, the pairs
  of the query string are those of the keys before \<open>k\<close>, then exactly one percent-encoded
  pair \<open>conditions[k][s]=v\<close> for each entry \<open>(s, v)\<close> of \<open>sub\<close> whose value is neither
  \<^verbatim>\<open>null\<close> nor \<^verbatim>\<open>undefined\<close>, in the order of \<open>sub\<close>, then those of the later keys, the
  fields and the paging parameters: no pair stands for a sub-key that \<open>sub\<close> lacks. The
  pairs of distinct sub-keys are distinct.
\<close>

theorem nested_condition_pairs:
  "query_pairs (buildQueryString (params\<lparr>conditions := Some (pre @ (k, JObj sub) # post)\<rparr>)) =
     query_pairs (buildQueryString (only_conditions pre))
     @ nested_pairs k sub
     @ query_pairs (buildQueryString (params\<lparr>conditions := Some post\<rparr>))
   \<and> buildQueryString (params\<lparr>conditions := Some (pre @ (k, JObj sub) # post)\<rparr>) =
       join ''&'' (query_pairs (buildQueryString (only_conditions pre))
                   @ nested_pairs k sub
                   @ query_pairs (buildQueryString (params\<lparr>conditions := Some post\<rparr>)))
   \<and> (distinct (map fst sub) \<longrightarrow> distinct (nested_pairs k sub))"
proof -
  have "addCondition ''conditions'' [] (k, JObj sub) = nested_pairs k sub"
    by (simp add: addCondition_nested nested_pairs_def del: addCondition.simps)
  then have pairs:
    "query_pairs (buildQueryString (params\<lparr>conditions := Some (pre @ (k, JObj sub) # post)\<rparr>)) =
       query_pairs (buildQueryString (only_conditions pre))
       @ nested_pairs k sub
       @ query_pairs (buildQueryString (params\<lparr>conditions := Some post\<rparr>))"
    by (simp only: query_pairs_buildQueryString buildParts_insert)
  from pairs buildQueryString_pairs [of "params\<lparr>conditions := Some (pre @ (k, JObj sub) # post)\<rparr>"]
  show ?thesis by (simp add: nested_pairs_distinct)
qed

text \<open>A date filter with one value missing, between a scalar filter and the page size.\<close>

theorem nested_condition_pairs_witness:
  "buildQueryString
     (no_params\<lparr>per_page := Some 50,
        conditions := Some ([(''president'', JStr ''joe-biden'')]
          @ (''publication_date'',
              JObj [(''year'', JNum 2024), (''month'', JNull), (''gte'', JStr ''2024-01-01'')])
          # [])\<rparr>)
   = ''conditions%5Bpresident%5D=joe-biden&conditions%5Bpublication_date%5D%5Byear%5D=2024&conditions%5Bpublication_date%5D%5Bgte%5D=2024-01-01&per_page=50''
   \<and> distinct (nested_pairs ''publication_date''
         [(''year'', JNum 2024), (''month'', JNull), (''gte'', JStr ''2024-01-01'')])"
proof -
  have before: "query_pairs (buildQueryString (only_conditions [(''president'', JStr ''joe-biden'')]))
      = [''conditions%5Bpresident%5D=joe-biden'']"
    unfolding query_pairs_buildQueryString by code_simp
  have nested: "nested_pairs ''publication_date''
        [(''year'', JNum 2024), (''month'', JNull), (''gte'', JStr ''2024-01-01'')]
      = [''conditions%5Bpublication_date%5D%5Byear%5D=2024'',
         ''conditions%5Bpublication_date%5D%5Bgte%5D=2024-01-01'']"
    by code_simp
  have after: "query_pairs (buildQueryString (no_params\<lparr>per_page := Some 50, conditions := Some []\<rparr>))
      = [''per_page=50'']"
    unfolding query_pairs_buildQueryString by code_simp
  have keys: "distinct (map fst [(''year'', JNum 2024), (''month'', JNull), (''gte'', JStr ''2024-01-01'')])"
    by simp
  from nested_condition_pairs [where params = "no_params\<lparr>per_page := Some 50\<rparr>"
      and pre = "[(''president'', JStr ''joe-biden'')]" and k = "''publication_date''"
      and sub = "[(''year'', JNum 2024), (''month'', JNull), (''gte'', JStr ''2024-01-01'')]"
      and post = "[]"]
    keys
  show ?thesis
    by (simp only: before nested after) simp
qed

text \<open>
  Claim C6. When a key \<open>k\<close> maps to a sequence of \<open>N\<close> values none of which is
  \<^verbatim>\<open>null\<close> or \<^verbatim>\<open>undefined\<close>, the query string holds, between the pairs of the
  earlier and the later keys, exactly \<open>N\<close> pairs \<open>conditions[k][]=vi\<close>, the \<open>i\<close>-th for the
  \<open>i\<close>-th element.
\<close>

theorem sequence_condition_pairs:
  assumes "\<forall>v\<in>set items. present v"
  shows "query_pairs (buildQueryString (params\<lparr>conditions := Some (pre @ (k, JArr items) # post)\<rparr>)) =
           query_pairs (buildQueryString (only_conditions pre))
           @ sequence_pairs k items
           @ query_pairs (buildQueryString (params\<lparr>conditions := Some post\<rparr>))
       \<and> buildQueryString (params\<lparr>conditions := Some (pre @ (k, JArr items) # post)\<rparr>) =
           join ''&'' (query_pairs (buildQueryString (only_conditions pre))
                       @ sequence_pairs k items
                       @ query_pairs (buildQueryString (params\<lparr>conditions := Some post\<rparr>)))
       \<and> length (sequence_pairs k items) = length items
       \<and> (\<forall>i<length items.
             sequence_pairs k items ! i = spec_pair (''conditions['' @ k @ ''][]'') (items ! i))"
proof -
  from assms have "filter present items = items" by simp
  then have "addCondition ''conditions'' [] (k, JArr items) = sequence_pairs k items"
    by (simp add: addCondition_sequence sequence_pairs_def del: addCondition.simps)
  then have pairs:
    "query_pairs (buildQueryString (params\<lparr>conditions := Some (pre @ (k, JArr items) # post)\<rparr>)) =
       query_pairs (buildQueryString (only_conditions pre))
       @ sequence_pairs k items
       @ query_pairs (buildQueryString (params\<lparr>conditions := Some post\<rparr>))"
    by (simp only: query_pairs_buildQueryString buildParts_insert)
  from pairs buildQueryString_pairs [of "params\<lparr>conditions := Some (pre @ (k, JArr items) # post)\<rparr>"]
  show ?thesis by (simp add: sequence_pairs_def)
qed

text \<open>Three agencies, one with spaces in its name and one a number.\<close>

theorem sequence_condition_pairs_witness:
  "list_all present [JStr ''epa'', JStr ''food and drug'', JNum 7]
   \<and> buildQueryString
       (no_params\<lparr>conditions :=
          Some ([] @ (''agencies'', JArr [JStr ''epa'', JStr ''food and drug'', JNum 7]) # [])\<rparr>)
     = ''conditions%5Bagencies%5D%5B%5D=epa&conditions%5Bagencies%5D%5B%5D=food%20and%20drug&conditions%5Bagencies%5D%5B%5D=7''
   \<and> length (sequence_pairs ''agencies'' [JStr ''epa'', JStr ''food and drug'', JNum 7]) = 3"
proof -
  have all: "\<forall>v\<in>set [JStr ''epa'', JStr ''food and drug'', JNum 7]. present v"
    by (simp add: present_def)
  have before: "query_pairs (buildQueryString (only_conditions [])) = []"
    unfolding query_pairs_buildQueryString by code_simp
  have seq: "sequence_pairs ''agencies'' [JStr ''epa'', JStr ''food and drug'', JNum 7]
      = [''conditions%5Bagencies%5D%5B%5D=epa'', ''conditions%5Bagencies%5D%5B%5D=food%20and%20drug'',
         ''conditions%5Bagencies%5D%5B%5D=7'']"
    by code_simp
  have after: "query_pairs (buildQueryString (no_params\<lparr>conditions := Some []\<rparr>)) = []"
    unfolding query_pairs_buildQueryString by code_simp
  from sequence_condition_pairs [OF all, where params = no_params and pre = "[]"
      and k = "''agencies''" and post = "[]"] all
  show ?thesis
    by (simp only: before seq after) (simp add: list_all_iff)
qed

text \<open>
  Claim C10. A key that maps to an empty sequence or to an empty nested mapping leaves
  no trace in the query string: the string is the one built without the key. And the
  string has no empty segment between, before or after its separators.
\<close>

theorem empty_filter_emits_nothing:
  assumes "v = JArr [] \<or> v = JObj []"
  shows "buildQueryString (params\<lparr>conditions := Some (pre @ (k, v) # post)\<rparr>)
           = buildQueryString (params\<lparr>conditions := Some (pre @ post)\<rparr>)
       \<and> \<not> has_empty_segment (buildQueryString (params\<lparr>conditions := Some (pre @ (k, v) # post)\<rparr>))"
proof -
  from assms have "addCondition ''conditions'' [] (k, v) = []" by auto
  then have "buildParts (params\<lparr>conditions := Some (pre @ (k, v) # post)\<rparr>)
      = buildParts (params\<lparr>conditions := Some (pre @ post)\<rparr>)"
    by (simp add: buildParts_insert buildParts_eq [of "params\<lparr>conditions := _\<rparr>"]
        buildParts_only_conditions condParts_def addConditions_append)
  then show ?thesis
    by (simp add: buildQueryString_def no_empty_segment_buildQueryString [unfolded buildQueryString_def])
qed

text \<open>An empty list of agencies beside a search term.\<close>

theorem empty_filter_emits_nothing_witness:
  "(JArr [] = JArr [] \<or> JArr [] = JObj [])
   \<and> buildQueryString
       (no_params\<lparr>page := Some 2,
          conditions := Some ([(''term'', JStr ''water'')] @ (''agencies'', JArr []) # [])\<rparr>)
     = ''conditions%5Bterm%5D=water&page=2''
   \<and> \<not> has_empty_segment (buildQueryString
       (no_params\<lparr>page := Some 2,
          conditions := Some ([(''term'', JStr ''water'')] @ (''agencies'', JArr []) # [])\<rparr>))"
proof -
  have shape: "JArr [] = JArr [] \<or> JArr [] = JObj []" by simp
  note inst = empty_filter_emits_nothing [OF shape, where params = "no_params\<lparr>page := Some 2\<rparr>"
      and pre = "[(''term'', JStr ''water'')]" and k = "''agencies''" and post = "[]"]
  have without: "buildQueryString
      (no_params\<lparr>page := Some 2, conditions := Some ([(''term'', JStr ''water'')] @ [])\<rparr>)
     = ''conditions%5Bterm%5D=water&page=2''"
    by code_simp
  from inst [THEN conjunct1] without
  have "buildQueryString
       (no_params\<lparr>page := Some 2,
          conditions := Some ([(''term'', JStr ''water'')] @ (''agencies'', JArr []) # [])\<rparr>)
     = ''conditions%5Bterm%5D=water&page=2''"
    by (rule trans)
  with shape inst [THEN conjunct2] show ?thesis by blast
qed

section \<open>Properties of the paginator\<close>

lemma getAllResults_loop_total:
  "\<exists>r. getAllResults_loop searchFn options perPage maxResults pg allResults w = Some r"
proof (induction "nat (maxResults - int (length allResults))" arbitrary: pg allResults w
       rule: less_induct)
  case less
  show ?case
  proof (cases "int (length allResults) < maxResults")
    case False
    then show ?thesis by (subst getAllResults_loop.simps) simp
  next
    case True
    obtain r w' where call: "searchFn (options\<lparr>page := Some pg, per_page := Some perPage\<rparr>) w = (r, w')"
      by (cases "searchFn (options\<lparr>page := Some pg, per_page := Some perPage\<rparr>) w")
    show ?thesis
    proof (cases r)
      case (Inl e)
      with True call show ?thesis by (subst getAllResults_loop.simps) simp
    next
      case (Inr response)
      show ?thesis
      proof (cases "results response")
        case None
        with True call Inr show ?thesis by (subst getAllResults_loop.simps) simp
      next
        case (Some rs)
        show ?thesis
        proof (cases "length rs = 0 \<or> js_ge pg (total_pages response)")
          case True
          with \<open>int (length allResults) < maxResults\<close> call Inr Some show ?thesis
            by (subst getAllResults_loop.simps) auto
        next
          case False
          with True have "nat (maxResults - int (length (allResults @ rs)))
              < nat (maxResults - int (length allResults))"
            by auto
          from less [OF this, of "pg + 1" w'] False True call Inr Some show ?thesis
            by (subst getAllResults_loop.simps) simp
        qed
      qed
    qed
  qed
qed

text \<open>
  Claim C2. For every search function, whatever result sequences and \<^verbatim>\<open>total_pages\<close> it
  returns on each call, every initial filter and every maximum result count,
  \<^verbatim>\<open>getAllResults\<close> returns: a run that never leaves the loop would be the value \<open>None\<close>.
  Every round that does not leave the loop appends a non-empty page, so the distance of
  the accumulator's length from the maximum falls.
\<close>

theorem getAllResults_terminates:
  "\<exists>r. getAllResults searchFn options maxResults w = Some r"
proof -
  from getAllResults_loop_total
    [of searchFn options "min (num_or (per_page options) 100) 1000" maxResults 1 "[]" w]
  obtain r where "getAllResults_loop searchFn options (min (num_or (per_page options) 100) 1000)
      maxResults 1 [] w = Some r" ..
  then show ?thesis
    by (cases r) (auto simp: getAllResults_def split: sum.splits)
qed


lemma pages_from_Suc: "pages_from pg (Suc n) = Some pg # pages_from (pg + 1) n"
  unfolding pages_from_def
  by (simp only: upt_conv_Cons [of 0 "Suc n"] map_Suc_upt [symmetric] list.map) (simp add: comp_def add.commute add.left_commute)

lemma spying_call:
  "f q w = (r, w') \<Longrightarrow> spying entry f q (w, seen) = (r, (w', seen @ [entry q r]))"
  by (simp add: spying_def)

lemma getAllResults_loop_spied:
  assumes "getAllResults_loop (spying Pair searchFn) options perPage maxResults pg allResults (w, seen)
           = Some (r, (w', seen'))"
  shows "\<exists>calls. seen' = seen @ calls
           \<and> map (\<lambda>c. page (fst c)) calls = pages_from pg (length calls)
           \<and> (case r of Inl e \<Rightarrow> True
                | Inr xs \<Rightarrow> xs = allResults @ concat (map reply_results calls))"
  using assms
proof (induction "nat (maxResults - int (length allResults))" arbitrary: pg allResults w seen
       rule: less_induct)
  case less
  note run = less.prems
  show ?case
  proof (cases "int (length allResults) < maxResults")
    case False
    with run have "r = Inr allResults" "seen' = seen"
      by (subst (asm) getAllResults_loop.simps, simp)+
    then show ?thesis by (simp add: pages_from_def)
  next
    case True
    let ?q = "options\<lparr>page := Some pg, per_page := Some perPage\<rparr>"
    obtain r1 w1 where call: "searchFn ?q w = (r1, w1)"
      by (cases "searchFn ?q w")
    have spied: "spying Pair searchFn ?q (w, seen) = (r1, (w1, seen @ [(?q, r1)]))"
      using call by (rule spying_call)
    have one: "map (\<lambda>c. page (fst c)) [(?q, r1)] = pages_from pg (length [(?q, r1)])"
      by (simp add: pages_from_def)
    show ?thesis
    proof (cases r1)
      case (Inl e)
      with True spied run have "r = Inl e" "seen' = seen @ [(?q, r1)]"
        by (subst (asm) getAllResults_loop.simps, simp)+
      with one show ?thesis by (intro exI [of _ "[(?q, r1)]"]) simp
    next
      case (Inr response)
      show ?thesis
      proof (cases "results response")
        case None
        with True spied run Inr have "r = Inr allResults" "seen' = seen @ [(?q, r1)]"
          by (subst (asm) getAllResults_loop.simps, simp)+
        with one Inr None show ?thesis
          by (intro exI [of _ "[(?q, r1)]"]) (simp add: reply_results_def)
      next
        case (Some rs)
        show ?thesis
        proof (cases "length rs = 0")
          case True
          with \<open>int (length allResults) < maxResults\<close> spied run Inr Some
          have "r = Inr allResults" "seen' = seen @ [(?q, r1)]"
            by (subst (asm) getAllResults_loop.simps, simp)+
          with one Inr Some True show ?thesis
            by (intro exI [of _ "[(?q, r1)]"]) (simp add: reply_results_def)
        next
          case False
          note nonempty = False
          show ?thesis
          proof (cases "js_ge pg (total_pages response)")
            case True
            with \<open>int (length allResults) < maxResults\<close> nonempty spied run Inr Some
            have "r = Inr (allResults @ rs)" "seen' = seen @ [(?q, r1)]"
              by (subst (asm) getAllResults_loop.simps, simp)+
            with one Inr Some show ?thesis
              by (intro exI [of _ "[(?q, r1)]"]) (simp add: reply_results_def)
          next
            case False
            have smaller: "nat (maxResults - int (length (allResults @ rs)))
                < nat (maxResults - int (length allResults))"
              using nonempty \<open>int (length allResults) < maxResults\<close> by auto
            have rest: "getAllResults_loop (spying Pair searchFn) options perPage maxResults (pg + 1)
                (allResults @ rs) (w1, seen @ [(?q, r1)]) = Some (r, (w', seen'))"
              using run \<open>int (length allResults) < maxResults\<close> nonempty False spied Inr Some
              by (subst (asm) getAllResults_loop.simps) simp
            from less.hyps [OF smaller rest] obtain calls where
              calls: "seen' = (seen @ [(?q, r1)]) @ calls"
                "map (\<lambda>c. page (fst c)) calls = pages_from (pg + 1) (length calls)"
                "case r of Inl e \<Rightarrow> True
                 | Inr xs \<Rightarrow> xs = (allResults @ rs) @ concat (map reply_results calls)"
              by blast
            show ?thesis
            proof (intro exI [of _ "(?q, r1) # calls"] conjI)
              show "seen' = seen @ (?q, r1) # calls" using calls(1) by simp
              show "map (\<lambda>c. page (fst c)) ((?q, r1) # calls)
                  = pages_from pg (length ((?q, r1) # calls))"
                using calls(2) by (simp add: pages_from_Suc)
              show "case r of Inl e \<Rightarrow> True
                 | Inr xs \<Rightarrow> xs = allResults @ concat (map reply_results ((?q, r1) # calls))"
                using calls(3) Inr Some by (simp add: reply_results_def split: sum.splits)
            qed
          qed
        qed
      qed
    qed
  qed
qed


text \<open>
  Claim C3. Run against any search function whose calls are observed, \<^verbatim>\<open>getAllResults\<close>
  returns at most \<open>maxResults\<close> items, and they are a prefix of the concatenation of the
  pages served, which were requested in page order 1, 2, \<dots>: exactly the first
  \<open>maxResults\<close> items of that concatenation (all of it when it is shorter).
\<close>

theorem getAllResults_truncated_prefix:
  assumes "getAllResults (spying Pair searchFn) options maxResults (w, []) = Some (Inr xs, (w', calls))"
  shows "length xs \<le> nat maxResults
       \<and> prefix xs (concat (map reply_results calls))
       \<and> xs = take (nat maxResults) (concat (map reply_results calls))
       \<and> map (\<lambda>c. page (fst c)) calls = pages_from 1 (length calls)"
proof -
  let ?perPage = "min (num_or (per_page options) 100) 1000"
  from assms obtain ys where
    loop: "getAllResults_loop (spying Pair searchFn) options ?perPage maxResults 1 [] (w, [])
           = Some (Inr ys, (w', calls))"
    and xs: "xs = slice0 maxResults ys"
    by (auto simp: getAllResults_def split: option.splits sum.splits)
  from getAllResults_loop_spied [OF loop]
  have calls: "map (\<lambda>c. page (fst c)) calls = pages_from 1 (length calls)"
    and ys: "ys = concat (map reply_results calls)"
    by auto
  have "xs = take (nat maxResults) ys"
  proof (cases "maxResults \<le> 0")
    case True
    then have "ys = []"
      using loop by (subst (asm) getAllResults_loop.simps) simp
    with xs show ?thesis by (simp add: slice0_def)
  next
    case False
    with xs show ?thesis by (simp add: slice0_def)
  qed
  with ys calls show ?thesis by (simp add: take_is_prefix)
qed

text \<open>
  With a maximum of 3 and pages of 2 items each, the first 3 items are returned: the
  second page is cut.
\<close>

theorem getAllResults_truncated_prefix_witness:
  "getAllResults (spying Pair two_per_page) no_params 3 ((), [])
     = Some (Inr [1, 2, 3],
         ((), [(no_params\<lparr>page := Some 1, per_page := Some 100\<rparr>,
                 Inr \<lparr>count = 6, total_pages = Some 3, results = Some [1, 2]\<rparr>),
               (no_params\<lparr>page := Some 2, per_page := Some 100\<rparr>,
                 Inr \<lparr>count = 6, total_pages = Some 3, results = Some [3, 4]\<rparr>)]))
   \<and> length [1, 2, 3 :: int] \<le> nat 3
   \<and> prefix [1, 2, 3 :: int] [1, 2, 3, 4]"
proof -
  have run: "getAllResults (spying Pair two_per_page) no_params 3 ((), [])
     = Some (Inr [1, 2, 3],
         ((), [(no_params\<lparr>page := Some 1, per_page := Some 100\<rparr>,
                 Inr \<lparr>count = 6, total_pages = Some 3, results = Some [1, 2]\<rparr>),
               (no_params\<lparr>page := Some 2, per_page := Some 100\<rparr>,
                 Inr \<lparr>count = 6, total_pages = Some 3, results = Some [3, 4]\<rparr>)]))"
    by (simp add: getAllResults_def getAllResults_loop.simps spying_def two_per_page_def
        no_params_def num_or_def js_ge_def slice0_def)
  from getAllResults_truncated_prefix [OF run] run show ?thesis
    by (simp add: reply_results_def)
qed

text \<open>
  Claim C4. When the first page has an empty result sequence, or none at all, and the
  maximum is positive, \<^verbatim>\<open>getAllResults\<close> returns the empty sequence and the search function
  was called exactly once (with page 1), whatever \<^verbatim>\<open>total_pages\<close> the page reports.
\<close>

theorem getAllResults_first_page_empty:
  assumes "0 < maxResults"
    and "searchFn (options\<lparr>page := Some 1,
                           per_page := Some (min (num_or (per_page options) 100) 1000)\<rparr>) w
         = (Inr response, w')"
    and "results response = None \<or> results response = Some []"
  shows "getAllResults (spying Pair searchFn) options maxResults (w, [])
         = Some (Inr [],
             (w', [(options\<lparr>page := Some 1,
                            per_page := Some (min (num_or (per_page options) 100) 1000)\<rparr>,
                    Inr response)]))"
  using assms
  by (auto simp: getAllResults_def getAllResults_loop.simps [of _ _ _ _ 1 "[]"] spying_def slice0_def)

text \<open>A backend that reports five pages and serves none is asked once.\<close>

theorem getAllResults_first_page_empty_witness:
  "(0 :: int) < 100
   \<and> getAllResults (spying Pair stale_empty) no_params 100 (0, [])
       = Some (Inr [],
           (1, [(no_params\<lparr>page := Some 1, per_page := Some 100\<rparr>,
                  Inr \<lparr>count = 12, total_pages = Some 5, results = Some []\<rparr>)]))"
proof -
  have pos: "(0 :: int) < 100" by simp
  have call: "stale_empty (no_params\<lparr>page := Some 1,
                 per_page := Some (min (num_or (per_page no_params) 100) 1000)\<rparr>) 0
       = (Inr \<lparr>count = 12, total_pages = Some 5, results = Some []\<rparr>, 1)"
    by (simp add: stale_empty_def)
  have empty: "results \<lparr>count = 12, total_pages = Some 5, results = Some ([] :: int list)\<rparr> = None
      \<or> results \<lparr>count = 12, total_pages = Some 5, results = Some ([] :: int list)\<rparr> = Some []"
    by simp
  from getAllResults_first_page_empty
    [where searchFn = stale_empty and options = no_params and w = 0, OF pos call empty] pos
  show ?thesis
    by (simp add: no_params_def num_or_def)
qed

section \<open>Properties of the lookup by number\<close>

lemma find_none: "\<forall>r\<in>set rs. \<not> P r \<Longrightarrow> find P rs = None"
  by (induction rs) simp_all

lemma find_unique:
  "r \<in> set rs \<Longrightarrow> P r \<Longrightarrow> \<forall>r'\<in>set rs. P r' \<longrightarrow> r' = r \<Longrightarrow> find P rs = Some r"
proof (induction rs)
  case Nil
  then show ?case by simp
next
  case (Cons a rs)
  show ?case
  proof (cases "P a")
    case True
    with Cons.prems have "a = r" by simp
    with True show ?thesis by simp
  next
    case False
    with Cons.prems have "r \<in> set rs" by auto
    moreover from Cons.prems have "\<forall>r'\<in>set rs. P r' \<longrightarrow> r' = r" by simp
    ultimately have "find P rs = Some r" using Cons.prems(2) by (intro Cons.IH)
    with False show ?thesis by simp
  qed
qed

text \<open>
  Claim C1. Whenever the free-text search for the number \<open>n\<close> (first page, at most 100
  results) answers with the records \<open>rs\<close>, \<^verbatim>\<open>getExecutiveOrderByNumber\<close> returns the record of
  \<open>rs\<close> whose \<^verbatim>\<open>executive_order_number\<close> is \<open>n\<close> when there is exactly one such record, and
  \<^verbatim>\<open>null\<close> (here \<open>None\<close>) when no record of \<open>rs\<close> has that number.
\<close>

theorem getExecutiveOrderByNumber_exact:
  assumes "fetch (requestUrl ''/documents.json'' (lookupParams n flds)) w = (Inr resp, w')"
    and "ok resp" and "body resp = Inr env" and "results env = Some rs"
  shows "(\<forall>r. r \<in> set rs \<and> executive_order_number r = n
              \<and> (\<forall>r'\<in>set rs. executive_order_number r' = n \<longrightarrow> r' = r)
            \<longrightarrow> getExecutiveOrderByNumber fetch n flds w = (Inr (Some r), w'))
       \<and> ((\<forall>r\<in>set rs. executive_order_number r \<noteq> n)
            \<longrightarrow> getExecutiveOrderByNumber fetch n flds w = (Inr None, w'))
       \<and> per_page (lookupParams n flds) = Some 100
       \<and> (\<exists>conds. conditions (lookupParams n flds) = Some conds
              \<and> (''term'', JStr (show_int n)) \<in> set conds)"
proof -
  have run: "getExecutiveOrderByNumber fetch n flds w
      = (Inr (find (\<lambda>r. executive_order_number r = n) rs), w')"
    unfolding getExecutiveOrderByNumber_def searchDocuments_def makeRequest_def Let_def
    by (simp only: assms prod.case sum.case if_False not_True_eq_False option.case)
  show ?thesis
  proof (intro conjI allI impI)
    fix r
    assume "r \<in> set rs \<and> executive_order_number r = n
        \<and> (\<forall>r'\<in>set rs. executive_order_number r' = n \<longrightarrow> r' = r)"
    then have "find (\<lambda>r. executive_order_number r = n) rs = Some r"
      by (intro find_unique) simp_all
    with run show "getExecutiveOrderByNumber fetch n flds w = (Inr (Some r), w')" by simp
  next
    assume "\<forall>r\<in>set rs. executive_order_number r \<noteq> n"
    then have "find (\<lambda>r. executive_order_number r = n) rs = None"
      by (intro find_none) simp
    with run show "getExecutiveOrderByNumber fetch n flds w = (Inr None, w')" by simp
  next
    show "per_page (lookupParams n flds) = Some 100"
      by (simp add: lookupParams_def)
  next
    show "\<exists>conds. conditions (lookupParams n flds) = Some conds
              \<and> (''term'', JStr (show_int n)) \<in> set conds"
      by (simp add: lookupParams_def)
  qed
qed

text \<open>Against the records numbered 10, 22 and 31: 22 is found, 99 is not.\<close>

theorem getExecutiveOrderByNumber_exact_witness:
  "getExecutiveOrderByNumber three_orders 22 None () = (Inr (Some (example_order 22)), ())
   \<and> getExecutiveOrderByNumber three_orders 99 None () = (Inr None, ())"
proof -
  let ?env = "\<lparr>count = 3, total_pages = Some 1, results = Some (map example_order [10, 22, 31])\<rparr>"
  let ?resp = "\<lparr>ok = True, status = 200, statusText = ''OK'', body = Inr ?env\<rparr>"
  have number: "executive_order_number (example_order k) = k" for k
    by (simp add: example_order_def)
  have served: "three_orders (requestUrl ''/documents.json'' (lookupParams k None)) () = (Inr ?resp, ())" for k
    by (simp add: three_orders_def)
  note found = getExecutiveOrderByNumber_exact [where fetch = three_orders and n = 22
      and flds = None and w = "()" and env = ?env and rs = "map example_order [10, 22, 31]",
      OF served [of 22], THEN conjunct1, rule_format, of "example_order 22"]
  note missing = getExecutiveOrderByNumber_exact [where fetch = three_orders and n = 99
      and flds = None and w = "()" and env = ?env and rs = "map example_order [10, 22, 31]",
      OF served [of 99], THEN conjunct2, THEN conjunct1, rule_format]
  have "getExecutiveOrderByNumber three_orders 22 None () = (Inr (Some (example_order 22)), ())"
    by (rule found) (simp_all add: number)
  moreover have "getExecutiveOrderByNumber three_orders 99 None () = (Inr None, ())"
    by (rule missing) (auto simp add: number)
  ultimately show ?thesis by simp
qed

section \<open>Properties of the composed operations\<close>

lemma makeRequest_spied:
  assumes "fetch (requestUrl endpoint params) w = (reply, w')"
  shows "makeRequest (spying entry fetch) endpoint params (w, seen)
         = (request_outcome reply, (w', seen @ [entry (requestUrl endpoint params) reply]))"
  unfolding makeRequest_def spying_def request_outcome_def
  by (cases reply) (simp_all only: assms prod.case sum.case split: if_splits, simp_all)

lemma searchExecutiveOrders_spied:
  assumes "fetch (presidentPageUrl pres flds pg) w = (reply, w')"
  shows "searchExecutiveOrders (spying Pair fetch) (presidentPage pres flds pg) (w, seen)
         = (request_outcome reply, (w', seen @ [(presidentPageUrl pres flds pg, reply)]))"
  unfolding searchExecutiveOrders_def searchDocuments_def
  using assms unfolding presidentPageUrl_def by (rule makeRequest_spied [where entry = Pair])

lemma loop_unfold:
  assumes "fetch (presidentPageUrl pres flds pg) w = (reply, w')"
  shows "getExecutiveOrdersByPresident_loop (spying Pair fetch) pres flds pg allResults (w, seen) =
     (case request_outcome reply of
        Inl e \<Rightarrow> (Inl e, (w', seen @ [(presidentPageUrl pres flds pg, reply)]))
      | Inr response \<Rightarrow>
          (case results response of
             None \<Rightarrow> (Inr allResults, (w', seen @ [(presidentPageUrl pres flds pg, reply)]))
           | Some rs \<Rightarrow>
               if length rs > 0
               then (if js_lt pg (total_pages response) \<and> pg < 2
                     then getExecutiveOrdersByPresident_loop (spying Pair fetch) pres flds (pg + 1)
                            (allResults @ rs) (w', seen @ [(presidentPageUrl pres flds pg, reply)])
                     else (Inr (allResults @ rs), (w', seen @ [(presidentPageUrl pres flds pg, reply)])))
               else (Inr allResults, (w', seen @ [(presidentPageUrl pres flds pg, reply)]))))"
  by (subst getExecutiveOrdersByPresident_loop.simps)
     (simp only: searchExecutiveOrders_spied [where fetch = fetch and pres = pres and flds = flds
        and pg = pg and w = w, OF assms, unfolded presidentPage_def] prod.case)

lemma loop_last:
  assumes "fetch (presidentPageUrl pres flds pg) w = (reply, w')" and "2 \<le> pg"
  shows "\<exists>r. getExecutiveOrdersByPresident_loop (spying Pair fetch) pres flds pg allResults (w, seen)
           = (r, (w', seen @ [(presidentPageUrl pres flds pg, reply)]))
         \<and> (\<forall>xs. r = Inr xs \<longrightarrow> xs = allResults @ served_results (presidentPageUrl pres flds pg, reply))"
  unfolding loop_unfold [where fetch = fetch and pres = pres and flds = flds
        and pg = pg and w = w, OF assms(1)]
  using assms(2)
  by (simp add: served_results_def split: sum.splits option.splits)

text \<open>
  Claim C9. For every president slug and every backend, \<^verbatim>\<open>getExecutiveOrdersByPresident\<close>
  makes one or two requests: the search for page 1 and, at most, the one for page 2, each
  with 1000 results per page. What it returns is the results of those requests in order,
  whatever number of pages the backend reports.
\<close>

theorem by_president_two_calls:
  assumes "getExecutiveOrdersByPresident (spying Pair fetch) pres flds (w, []) = (r, (w', calls))"
  shows "1 \<le> length calls \<and> length calls \<le> 2
       \<and> map fst calls = take (length calls) [presidentPageUrl pres flds 1, presidentPageUrl pres flds 2]
       \<and> (\<forall>xs. r = Inr xs \<longrightarrow> xs = concat (map served_results calls))
       \<and> (\<forall>pg \<in> {1, 2}.
             per_page (searchExecutiveOrdersParams (presidentPage pres flds pg)) = Some 1000
             \<and> page (searchExecutiveOrdersParams (presidentPage pres flds pg)) = Some pg)"
proof -
  let ?u1 = "presidentPageUrl pres flds 1" and ?u2 = "presidentPageUrl pres flds 2"
  obtain reply1 w1 where first: "fetch ?u1 w = (reply1, w1)"
    by (cases "fetch ?u1 w")
  obtain reply2 w2 where second: "fetch ?u2 w1 = (reply2, w2)"
    by (cases "fetch ?u2 w1")
  note one = loop_unfold [where fetch = fetch and pres = pres and flds = flds and pg = 1
      and w = w and allResults = "[]" and seen = "[]", OF first]
  have run: "getExecutiveOrdersByPresident_loop (spying Pair fetch) pres flds 1 [] (w, [])
      = (r, (w', calls))"
    using assms by (simp add: getExecutiveOrdersByPresident_def)
  have params: "\<forall>pg \<in> {1, 2 :: int}.
             per_page (searchExecutiveOrdersParams (presidentPage pres flds pg)) = Some 1000
             \<and> page (searchExecutiveOrdersParams (presidentPage pres flds pg)) = Some pg"
    by (simp add: searchExecutiveOrdersParams_def presidentPage_def num_or_def Let_def)
  have calls: "1 \<le> length calls \<and> length calls \<le> 2
       \<and> map fst calls = take (length calls) [?u1, ?u2]
       \<and> (\<forall>xs. r = Inr xs \<longrightarrow> xs = concat (map served_results calls))"
  proof (cases "\<exists>response rs. request_outcome reply1 = Inr response \<and> results response = Some rs
                  \<and> length rs > 0 \<and> js_lt 1 (total_pages response)")
    case False
    with run one have "calls = [(?u1, reply1)]"
        "\<forall>xs. r = Inr xs \<longrightarrow> xs = served_results (?u1, reply1)"
      by (auto simp: served_results_def split: sum.splits option.splits if_splits)
    then show ?thesis by simp
  next
    case True
    then obtain response rs where more: "request_outcome reply1 = Inr response"
        "results response = Some rs" "length rs > 0" "js_lt 1 (total_pages response)"
      by blast
    from loop_last [where fetch = fetch and pres = pres and flds = flds and pg = 2 and w = w1
        and allResults = "[] @ rs" and seen = "[] @ [(?u1, reply1)]", OF second]
    obtain r2 where last:
      "getExecutiveOrdersByPresident_loop (spying Pair fetch) pres flds 2 ([] @ rs)
         (w1, [] @ [(?u1, reply1)]) = (r2, (w2, ([] @ [(?u1, reply1)]) @ [(?u2, reply2)]))"
      "\<forall>xs. r2 = Inr xs \<longrightarrow> xs = ([] @ rs) @ served_results (?u2, reply2)"
      by auto
    from run one more last have "calls = [(?u1, reply1), (?u2, reply2)]" "r = r2"
      by simp_all
    with last(2) more show ?thesis by (simp add: served_results_def)
  qed
  with params show ?thesis by simp
qed

text \<open>Against a backend that reports five pages, two requests are made and two pages returned.\<close>

theorem by_president_two_calls_witness:
  "getExecutiveOrdersByPresident (spying Pair endless_pages) ''joe-biden'' None (0, [])
     = (Inr [example_order 0, example_order 1],
        (2, [(presidentPageUrl ''joe-biden'' None 1,
               Inr \<lparr>ok = True, status = 200, statusText = ''OK'',
                     body = Inr \<lparr>count = 5000, total_pages = Some 5,
                                  results = Some [example_order 0]\<rparr>\<rparr>),
             (presidentPageUrl ''joe-biden'' None 2,
               Inr \<lparr>ok = True, status = 200, statusText = ''OK'',
                     body = Inr \<lparr>count = 5000, total_pages = Some 5,
                                  results = Some [example_order 1]\<rparr>\<rparr>)]))
   \<and> presidentPageUrl ''joe-biden'' None 2
     = ''https://www.federalregister.gov/api/v1/documents.json?conditions%5Btype%5D=PRESDOCU&conditions%5Bpresidential_document_type%5D=executive_order&conditions%5Bcorrection%5D=0&conditions%5Bpresident%5D=joe-biden&fields%5B%5D=document_number&fields%5B%5D=executive_order_number&fields%5B%5D=title&fields%5B%5D=signing_date&fields%5B%5D=publication_date&fields%5B%5D=president&fields%5B%5D=html_url&fields%5B%5D=pdf_url&fields%5B%5D=json_url&per_page=1000&page=2&order=executive_order_number''"
proof -
  let ?u1 = "presidentPageUrl ''joe-biden'' None 1" and ?u2 = "presidentPageUrl ''joe-biden'' None 2"
  let ?reply = "\<lambda>n. Inr \<lparr>ok = True, status = 200, statusText = ''OK'',
                     body = Inr \<lparr>count = 5000, total_pages = Some 5,
                                  results = Some [example_order n]\<rparr>\<rparr>"
  obtain r w' calls where run:
    "getExecutiveOrdersByPresident (spying Pair endless_pages) ''joe-biden'' None (0, [])
       = (r, (w', calls))"
    by (metis surj_pair)
  note facts = by_president_two_calls [OF run]
  have first: "endless_pages ?u1 0 = (?reply 0, 1)" and second: "endless_pages ?u2 (Suc 0) = (?reply 1, 2)"
    by (simp_all add: endless_pages_def)
  have "getExecutiveOrdersByPresident_loop (spying Pair endless_pages) ''joe-biden'' None 1 [] (0, [])
      = (Inr [example_order 0, example_order 1], (2, [(?u1, ?reply 0), (?u2, ?reply 1)]))"
    by (simp add: loop_unfold [where fetch = endless_pages and w = 0, OF first]
        loop_unfold [where fetch = endless_pages and w = "Suc 0", OF second]
        request_outcome_def js_lt_def)
  with run have result: "r = Inr [example_order 0, example_order 1]" "w' = 2"
      "calls = [(?u1, ?reply 0), (?u2, ?reply 1)]"
    by (simp_all add: getExecutiveOrdersByPresident_def)
  have url: "?u2 = ''https://www.federalregister.gov/api/v1/documents.json?conditions%5Btype%5D=PRESDOCU&conditions%5Bpresidential_document_type%5D=executive_order&conditions%5Bcorrection%5D=0&conditions%5Bpresident%5D=joe-biden&fields%5B%5D=document_number&fields%5B%5D=executive_order_number&fields%5B%5D=title&fields%5B%5D=signing_date&fields%5B%5D=publication_date&fields%5B%5D=president&fields%5B%5D=html_url&fields%5B%5D=pdf_url&fields%5B%5D=json_url&per_page=1000&page=2&order=executive_order_number''"
    by code_simp
  from facts run result url show ?thesis by simp
qed

lemma getExecutiveOrderByNumber_log:
  assumes "getExecutiveOrderByNumber (spying url_of fetch) n flds (w, seen) = (r, ws)"
  shows "snd ws = seen @ [requestUrl ''/documents.json'' (lookupParams n flds)]"
proof -
  let ?url = "requestUrl ''/documents.json'' (lookupParams n flds)"
  obtain reply w' where call: "fetch ?url w = (reply, w')" by (cases "fetch ?url w")
  note made = makeRequest_spied [where fetch = fetch and endpoint = "''/documents.json''"
      and params = "lookupParams n flds" and w = w and entry = url_of and seen = seen, OF call]
  from assms show ?thesis
    unfolding getExecutiveOrderByNumber_def searchDocuments_def Let_def made
    by (auto simp: url_of_def split: sum.splits)
qed

lemma getDocument_full:
  "getDocument fetch documentNumber (Some fullTextFields) ws =
     makeRequest fetch (''/documents/'' @ documentNumber @ ''.json'')
       (no_params\<lparr>fields' := Some fullTextFields\<rparr>) ws"
proof -
  have "length fullTextFields > 0" by (simp add: fullTextFields_def)
  then show ?thesis by (simp add: getDocument_def no_params_def)
qed

lemma getDocument_log:
  assumes "getDocument (spying url_of fetch) documentNumber (Some fullTextFields) (w, seen) = (r, ws)"
  shows "snd ws = seen @ [requestUrl (''/documents/'' @ documentNumber @ ''.json'')
                            (no_params\<lparr>fields' := Some fullTextFields\<rparr>)]"
proof -
  let ?url = "requestUrl (''/documents/'' @ documentNumber @ ''.json'')
                (no_params\<lparr>fields' := Some fullTextFields\<rparr>)"
  obtain reply w' where call: "fetch ?url w = (reply, w')" by (cases "fetch ?url w")
  note made = makeRequest_spied [where fetch = fetch
      and endpoint = "''/documents/'' @ documentNumber @ ''.json''"
      and params = "no_params\<lparr>fields' := Some fullTextFields\<rparr>"
      and w = w and entry = url_of and seen = seen, OF call]
  have "length fullTextFields > 0" by (simp add: fullTextFields_def)
  with assms have "makeRequest (spying url_of fetch) (''/documents/'' @ documentNumber @ ''.json'')
      (no_params\<lparr>fields' := Some fullTextFields\<rparr>) (w, seen) = (r, ws)"
    by (simp add: getDocument_def no_params_def)
  then show ?thesis unfolding made by (auto simp: url_of_def)
qed

text \<open>
  Claim C7. When the lookup by number finds the order and the document fetched for it has
  no \<^verbatim>\<open>raw_text_url\<close> (none, or an empty one), \<^verbatim>\<open>getExecutiveOrderFullText\<close> resolves to a
  record whose \<^verbatim>\<open>full_text\<close> is \<^verbatim>\<open>null\<close> and whose \<^verbatim>\<open>error\<close> is the explanatory note; it does
  not reject. The requests made are the search and the document fetch: the world is left as
  the document fetch left it, so no text is fetched.
\<close>

theorem full_text_unavailable:
  assumes "getExecutiveOrderByNumber (spying url_of fetchSearch) n None (w, seen) = (Inr (Some eo), ws1)"
    and "getDocument (spying url_of fetchDoc) (document_number eo) (Some fullTextFields) ws1
         = (Inr fullDoc, ws2)"
    and "raw_text_url fullDoc = None \<or> raw_text_url fullDoc = Some []"
  shows "getExecutiveOrderFullText (spying url_of fetchSearch) (spying url_of fetchDoc)
           (spying url_of fetchText) n (w, seen)
         = (Inr (Some
              \<lparr>ft_executive_order_number = n,
               ft_document_number = None,
               ft_title = title fullDoc,
               ft_signing_date = signing_date fullDoc,
               ft_president = president fullDoc,
               ft_abstract = abstract fullDoc,
               full_text = None,
               ft_error = Some ''Full text not available for this executive order'',
               ft_html_url = html_url fullDoc,
               ft_pdf_url = pdf_url fullDoc\<rparr>), ws2)
       \<and> snd ws2 = seen @ [requestUrl ''/documents.json'' (lookupParams n None),
                           requestUrl (''/documents/'' @ document_number eo @ ''.json'')
                             (no_params\<lparr>fields' := Some fullTextFields\<rparr>)]"
proof -
  from assms(1) have log1: "snd ws1 = seen @ [requestUrl ''/documents.json'' (lookupParams n None)]"
    by (rule getExecutiveOrderByNumber_log)
  obtain w1 seen1 where ws1: "ws1 = (w1, seen1)" by (cases ws1)
  from assms(2) [unfolded ws1] have "snd ws2 = seen1 @ [requestUrl (''/documents/'' @ document_number eo @ ''.json'')
                             (no_params\<lparr>fields' := Some fullTextFields\<rparr>)]"
    by (rule getDocument_log)
  with log1 ws1 have log: "snd ws2 = seen @ [requestUrl ''/documents.json'' (lookupParams n None),
                           requestUrl (''/documents/'' @ document_number eo @ ''.json'')
                             (no_params\<lparr>fields' := Some fullTextFields\<rparr>)]"
    by simp
  from assms(3) have result: "getExecutiveOrderFullText (spying url_of fetchSearch) (spying url_of fetchDoc)
           (spying url_of fetchText) n (w, seen)
         = (Inr (Some
              \<lparr>ft_executive_order_number = n,
               ft_document_number = None,
               ft_title = title fullDoc,
               ft_signing_date = signing_date fullDoc,
               ft_president = president fullDoc,
               ft_abstract = abstract fullDoc,
               full_text = None,
               ft_error = Some ''Full text not available for this executive order'',
               ft_html_url = html_url fullDoc,
               ft_pdf_url = pdf_url fullDoc\<rparr>), ws2)"
    unfolding getExecutiveOrderFullText_def assms(1) prod.case sum.case option.case assms(2) Let_def
    by auto
  from result log show ?thesis by (rule conjI)
qed

text \<open>Order 22 without raw text, with a text backend that would reject if it were asked.\<close>

theorem full_text_unavailable_witness:
  "getExecutiveOrderFullText (spying url_of three_orders) (spying url_of document_without_text)
       (spying url_of text_unreachable) 22 ((), [])
     = (Inr (Some
          \<lparr>ft_executive_order_number = 22,
           ft_document_number = None,
           ft_title = ''Order 22'',
           ft_signing_date = ''2022-03-09'',
           ft_president = \<lparr>president_name = ''Joseph R. Biden Jr.'', president_identifier = ''joe-biden''\<rparr>,
           ft_abstract = None,
           full_text = None,
           ft_error = Some ''Full text not available for this executive order'',
           ft_html_url = ''https://www.federalregister.gov/d/2022-22'',
           ft_pdf_url = None\<rparr>),
        ((), [requestUrl ''/documents.json'' (lookupParams 22 None),
              ''https://www.federalregister.gov/api/v1/documents/2022-22.json?fields%5B%5D=document_number&fields%5B%5D=executive_order_number&fields%5B%5D=title&fields%5B%5D=signing_date&fields%5B%5D=president&fields%5B%5D=abstract&fields%5B%5D=raw_text_url&fields%5B%5D=html_url&fields%5B%5D=pdf_url'']))"
proof -
  let ?u1 = "requestUrl ''/documents.json'' (lookupParams 22 None)"
  let ?u2 = "requestUrl (''/documents/'' @ document_number (example_order 22) @ ''.json'')
               (no_params\<lparr>fields' := Some fullTextFields\<rparr>)"
  have shown: "show_int 22 = ''22''" by code_simp
  have served: "three_orders ?u1 () =
      (Inr \<lparr>ok = True, status = 200, statusText = ''OK'',
             body = Inr \<lparr>count = 3, total_pages = Some 1,
                          results = Some (map example_order [10, 22, 31])\<rparr>\<rparr>, ())"
    by (simp add: three_orders_def)
  have number: "executive_order_number (example_order k) = k" for k
    by (simp add: example_order_def)
  have found: "getExecutiveOrderByNumber (spying url_of three_orders) 22 None ((), [])
      = (Inr (Some (example_order 22)), ((), [?u1]))"
    unfolding getExecutiveOrderByNumber_def searchDocuments_def Let_def
      makeRequest_spied [where fetch = three_orders and w = "()" and entry = url_of, OF served]
    by (simp add: request_outcome_def url_of_def number)
  have doc_served: "document_without_text ?u2 () =
      (Inr \<lparr>ok = True, status = 200, statusText = ''OK'', body = Inr (example_order 22)\<rparr>, ())"
    by (simp add: document_without_text_def)
  have doc: "getDocument (spying url_of document_without_text)
        (document_number (example_order 22)) (Some fullTextFields) ((), [?u1])
      = (Inr (example_order 22), ((), [?u1, ?u2]))"
    unfolding getDocument_full
      makeRequest_spied [where fetch = document_without_text and w = "()" and entry = url_of,
          OF doc_served]
    by (simp add: request_outcome_def url_of_def)
  have lacks: "raw_text_url (example_order 22) = None \<or> raw_text_url (example_order 22) = Some []"
    by (simp add: example_order_def)
  have url: "?u2 = ''https://www.federalregister.gov/api/v1/documents/2022-22.json?fields%5B%5D=document_number&fields%5B%5D=executive_order_number&fields%5B%5D=title&fields%5B%5D=signing_date&fields%5B%5D=president&fields%5B%5D=abstract&fields%5B%5D=raw_text_url&fields%5B%5D=html_url&fields%5B%5D=pdf_url''"
    by code_simp
  from full_text_unavailable [where fetchSearch = three_orders and fetchDoc = document_without_text
      and fetchText = text_unreachable and w = "()" and seen = "[]", OF found doc lacks]
  show ?thesis
    unfolding url [symmetric] by (simp add: example_order_def shown)
qed


end
